theory Spec2Isabelle
  imports Complex_Main "HOL-Library.Word"
begin

unbundle bit_operations_syntax

section \<open>Data model of ComplexShortArray.h\<close>

text \<open>
  \<^verbatim>\<open>struct ComplexShort { int16_t re; int16_t im; ... }\<close> and
  \<^verbatim>\<open>struct ComplexInt { int32_t re; int32_t im; }\<close>.
  Both structs name their members \<open>re\<close> and \<open>im\<close>; the fields are told apart by
  their qualified names \<open>ComplexShort.re\<close> and \<open>ComplexInt.re\<close>.
\<close>

record ComplexShort =
  re :: "16 word"
  im :: "16 word"

record ComplexInt =
  re :: "32 word"
  im :: "32 word"

text \<open>
  An array object is a handle: a pointer to the first element and an element count
  (\<^verbatim>\<open>unsigned int size\<close>, 32 bits wide, written \<open>size'\<close> here because \<open>size\<close> is
  a constant of HOL). The elements live in memory, which the handle does not own, so two
  handles may name the same cells. A pointer is either \<open>NULL\<close> or the address of a cell;
  addresses count cells of the pointed-to type.
\<close>

datatype ptr = NULL | Ptr nat

record ComplexShortArray =
  data :: ptr
  size' :: "32 word"

record ComplexIntArray =
  data :: ptr
  size' :: "32 word"

text \<open>
  Memory holds the \<open>ComplexShort\<close> cells and the \<open>ComplexInt\<close> cells. A
  \<^verbatim>\<open>ComplexShort*\<close> never aliases a \<^verbatim>\<open>ComplexInt*\<close>, hence two separate stores.
\<close>

record memory =
  shorts :: "nat \<Rightarrow> ComplexShort"
  ints :: "nat \<Rightarrow> ComplexInt"

text \<open>
  \<^verbatim>\<open>p[n]\<close>: the address of element \<open>n\<close> behind pointer \<open>p\<close>. Going through a null
  pointer is a fault; every operation below returns \<open>None\<close> when it faults.
\<close>

fun elem :: "ptr \<Rightarrow> nat \<Rightarrow> nat option" where
  "elem NULL n = None"
| "elem (Ptr a) n = Some (a + n)"

section \<open>ComplexShortArray\<close>

text \<open>\<^verbatim>\<open>ComplexShortArray() : data(NULL), size(0) {}\<close>\<close>

definition ComplexShortArray_default :: ComplexShortArray where
  "ComplexShortArray_default = \<lparr>ComplexShortArray.data = NULL, size' = 0\<rparr>"

text \<open>\<^verbatim>\<open>ComplexShortArray(ComplexShort* array, unsigned int size) : data(array), size(size) {}\<close>\<close>

definition ComplexShortArray_of :: "ptr \<Rightarrow> 32 word \<Rightarrow> ComplexShortArray" where
  "ComplexShortArray_of array n = \<lparr>ComplexShortArray.data = array, size' = n\<rparr>"

text \<open>\<^verbatim>\<open>unsigned int getSize() const { return size; }\<close>\<close>

definition getSize :: "ComplexShortArray \<Rightarrow> 32 word" where
  "getSize this = ComplexShortArray.size' this"

text \<open>\<^verbatim>\<open>ComplexShort* getData() { return data; }\<close>\<close>

definition getData :: "ComplexShortArray \<Rightarrow> ptr" where
  "getData this = ComplexShortArray.data this"

text \<open>
  \<^verbatim>\<open>
  bool equals(const ComplexShortArray other) const{
    if(size!=other.getSize()){
      return false;
    }
    for(int n=0; n<size; ++n){
      if(data[n].re!=other[n].re || data[n].im!=other[n].im){
        return false;
      }
    }
    return true;
  }
  \<close>
  \<open>equals_from\<close> is the loop, started at \<open>n = 0\<close>. The counter is an \<^verbatim>\<open>int\<close>
  compared with the unsigned \<open>size\<close>; it counts up from 0 and stays below \<open>size\<close>,
  so it is a natural number here. (A buffer of \<open>2^31\<close> or more elements, where an
  \<^verbatim>\<open>int\<close> counter would overflow, does not fit the 32-bit address space.)
\<close>

function equals_from :: "memory \<Rightarrow> ComplexShortArray \<Rightarrow> ComplexShortArray \<Rightarrow> nat \<Rightarrow> bool option" where
  "equals_from m this other n =
     (if n < unat (ComplexShortArray.size' this) then
        (case (elem (ComplexShortArray.data this) n, elem (ComplexShortArray.data other) n) of
           (Some a, Some b) \<Rightarrow>
             if ComplexShort.re (shorts m a) \<noteq> ComplexShort.re (shorts m b)
                \<or> ComplexShort.im (shorts m a) \<noteq> ComplexShort.im (shorts m b)
             then Some False
             else equals_from m this other (Suc n)
         | _ \<Rightarrow> None)
      else Some True)"
  by pat_completeness auto
termination
  by (relation "measure (\<lambda>(m, this, other, n). unat (ComplexShortArray.size' this) - n)") auto

declare equals_from.simps [simp del]

definition equals :: "memory \<Rightarrow> ComplexShortArray \<Rightarrow> ComplexShortArray \<Rightarrow> bool option" where
  "equals m this other =
     (if ComplexShortArray.size' this \<noteq> getSize other then Some False
      else equals_from m this other 0)"

section \<open>ComplexIntArray\<close>

text \<open>\<^verbatim>\<open>ComplexIntArray() : data(NULL), size(0) {}\<close>\<close>

definition ComplexIntArray_default :: ComplexIntArray where
  "ComplexIntArray_default = \<lparr>ComplexIntArray.data = NULL, size' = 0\<rparr>"

text \<open>\<^verbatim>\<open>ComplexIntArray(ComplexInt* array, unsigned int size) : data(array), size(size) {}\<close>\<close>

definition ComplexIntArray_of :: "ptr \<Rightarrow> 32 word \<Rightarrow> ComplexIntArray" where
  "ComplexIntArray_of array n = \<lparr>ComplexIntArray.data = array, size' = n\<rparr>"

text \<open>\<^verbatim>\<open>unsigned int getSize() { return size; }\<close> of \<open>ComplexIntArray\<close>.\<close>

definition getSize_int :: "ComplexIntArray \<Rightarrow> 32 word" where
  "getSize_int this = ComplexIntArray.size' this"

text \<open>\<^verbatim>\<open>ComplexInt* getData() { return data; }\<close> of \<open>ComplexIntArray\<close>.\<close>

definition getData_int :: "ComplexIntArray \<Rightarrow> ptr" where
  "getData_int this = ComplexIntArray.data this"

text \<open>
  Writing one member of a cell, \<^verbatim>\<open>p[n].re = v\<close> and \<^verbatim>\<open>p[n].im = v\<close>, with \<open>c\<close> the
  address of \<^verbatim>\<open>p[n]\<close>: the other member of the cell keeps its value.
\<close>

definition set_re :: "memory \<Rightarrow> nat \<Rightarrow> 32 word \<Rightarrow> memory" where
  "set_re m c v = m\<lparr>ints := (ints m)(c := (ints m c)\<lparr>ComplexInt.re := v\<rparr>)\<rparr>"

definition set_im :: "memory \<Rightarrow> nat \<Rightarrow> 32 word \<Rightarrow> memory" where
  "set_im m c v = m\<lparr>ints := (ints m)(c := (ints m c)\<lparr>ComplexInt.im := v\<rparr>)\<rparr>"

definition set_re_short :: "memory \<Rightarrow> nat \<Rightarrow> 16 word \<Rightarrow> memory" where
  "set_re_short m c v = m\<lparr>shorts := (shorts m)(c := (shorts m c)\<lparr>ComplexShort.re := v\<rparr>)\<rparr>"

definition set_im_short :: "memory \<Rightarrow> nat \<Rightarrow> 16 word \<Rightarrow> memory" where
  "set_im_short m c v = m\<lparr>shorts := (shorts m)(c := (shorts m c)\<lparr>ComplexShort.im := v\<rparr>)\<rparr>"

subsection \<open>The two builds\<close>

text \<open>
  Each of \<open>add\<close>, \<open>copyFrom\<close> and \<open>copyTo\<close> has two bodies, chosen by
  \<^verbatim>\<open>#ifdef ARM_CORTEX\<close>: a call of a vector primitive of the DSP library, or a loop
  over the elements. The choice is a parameter of the model, and both bodies are modelled
  as they are written. (In the same header the \<^verbatim>\<open>#else\<close> branch of
  \<open>ComplexShort::getMagnitude\<close> is \<^verbatim>\<open>#error TODO\<close>.)
\<close>

datatype build = ARM_CORTEX | PORTABLE

subsection \<open>The vector primitives\<close>

text \<open>
  The primitives take \<^verbatim>\<open>int16_t*\<close> and \<^verbatim>\<open>int32_t*\<close>; the array code casts its cell
  pointers to them. A cell is its \<open>re\<close> followed by its \<open>im\<close>, so scalar \<open>2 * c\<close> is
  the \<open>re\<close> of cell \<open>c\<close> and scalar \<open>2 * c + 1\<close> its \<open>im\<close>.
\<close>

fun scalars :: "ptr \<Rightarrow> ptr" where
  "scalars NULL = NULL"
| "scalars (Ptr c) = Ptr (2 * c)"

definition load_q15 :: "memory \<Rightarrow> nat \<Rightarrow> 16 word" where
  "load_q15 m k = (if even k then ComplexShort.re (shorts m (k div 2))
                   else ComplexShort.im (shorts m (k div 2)))"

definition load_q31 :: "memory \<Rightarrow> nat \<Rightarrow> 32 word" where
  "load_q31 m k = (if even k then ComplexInt.re (ints m (k div 2))
                   else ComplexInt.im (ints m (k div 2)))"

definition store_q15 :: "memory \<Rightarrow> nat \<Rightarrow> 16 word \<Rightarrow> memory" where
  "store_q15 m k v = (if even k then set_re_short m (k div 2) v else set_im_short m (k div 2) v)"

definition store_q31 :: "memory \<Rightarrow> nat \<Rightarrow> 32 word \<Rightarrow> memory" where
  "store_q31 m k v = (if even k then set_re m (k div 2) v else set_im m (k div 2) v)"

text \<open>
  Modelled from the spec: the element conversion of the widening primitive
  \<^verbatim>\<open>arm_q15_to_q31\<close>, which is not in the sources. The spec: "scale by 2^16 per
  element on widen".
\<close>

definition q15_to_q31 :: "16 word \<Rightarrow> 32 word" where
  "q15_to_q31 x = push_bit 16 (scast x)"

text \<open>
  Modelled from the spec: the element conversion of the narrowing primitive
  \<^verbatim>\<open>arm_q31_to_q15\<close>, which is not in the sources. The spec: "truncate on narrow";
  narrowing undoes the scaling by 2^16, so the 16 low-order bits are the ones cut off.
\<close>

definition q31_to_q15 :: "32 word \<Rightarrow> 16 word" where
  "q31_to_q15 x = ucast (signed_drop_bit 16 x)"

text \<open>
  Modelled from the spec: the element operation of the primitive \<^verbatim>\<open>arm_add_q31\<close>, which
  is not in the sources. The spec lists it as a "saturating add": the sum of the two signed
  values, clipped to the range of \<^verbatim>\<open>int32_t\<close>.
\<close>

definition add_q31 :: "32 word \<Rightarrow> 32 word \<Rightarrow> 32 word" where
  "add_q31 x y = word_of_int (max (- (2 ^ 31)) (min (2 ^ 31 - 1) (sint x + sint y)))"

text \<open>
  Modelled from the spec: the primitive \<^verbatim>\<open>arm_q15_to_q31(pSrc, pDst, blockSize)\<close>, which is
  not in the sources. The spec describes the primitives as taking "(pointer, pointer, count)
  triples over raw fixed-point data": \<open>blockSize\<close> scalars are converted one after the
  other, from the first on.
\<close>

fun arm_q15_to_q31 :: "memory \<Rightarrow> ptr \<Rightarrow> ptr \<Rightarrow> nat \<Rightarrow> memory option" where
  "arm_q15_to_q31 m pSrc pDst 0 = Some m"
| "arm_q15_to_q31 m (Ptr s) (Ptr d) (Suc blockSize) =
     arm_q15_to_q31 (store_q31 m d (q15_to_q31 (load_q15 m s))) (Ptr (Suc s)) (Ptr (Suc d)) blockSize"
| "arm_q15_to_q31 m pSrc pDst (Suc blockSize) = None"

text \<open>
  Modelled from the spec: the primitive \<^verbatim>\<open>arm_q31_to_q15(pSrc, pDst, blockSize)\<close>, which is
  not in the sources; the same traversal as \<open>arm_q15_to_q31\<close>.
\<close>

fun arm_q31_to_q15 :: "memory \<Rightarrow> ptr \<Rightarrow> ptr \<Rightarrow> nat \<Rightarrow> memory option" where
  "arm_q31_to_q15 m pSrc pDst 0 = Some m"
| "arm_q31_to_q15 m (Ptr s) (Ptr d) (Suc blockSize) =
     arm_q31_to_q15 (store_q15 m d (q31_to_q15 (load_q31 m s))) (Ptr (Suc s)) (Ptr (Suc d)) blockSize"
| "arm_q31_to_q15 m pSrc pDst (Suc blockSize) = None"

text \<open>
  Modelled from the spec: the primitive \<^verbatim>\<open>arm_add_q31(pSrcA, pSrcB, pDst, blockSize)\<close>,
  which is not in the sources; the same traversal over two sources.
\<close>

fun arm_add_q31 :: "memory \<Rightarrow> ptr \<Rightarrow> ptr \<Rightarrow> ptr \<Rightarrow> nat \<Rightarrow> memory option" where
  "arm_add_q31 m pSrcA pSrcB pDst 0 = Some m"
| "arm_add_q31 m (Ptr a) (Ptr b) (Ptr d) (Suc blockSize) =
     arm_add_q31 (store_q31 m d (add_q31 (load_q31 m a) (load_q31 m b)))
       (Ptr (Suc a)) (Ptr (Suc b)) (Ptr (Suc d)) blockSize"
| "arm_add_q31 m pSrcA pSrcB pDst (Suc blockSize) = None"

subsection \<open>add\<close>

text \<open>
  \<^verbatim>\<open>
  void add(ComplexIntArray operand2, ComplexIntArray destination){
  #ifdef ARM_CORTEX
    arm_add_q31((int32_t*)data, (int32_t*)operand2.getData(), (int32_t*)destination.getData(), size*2);
  #else
    for(int n=0; n<size; n++){
      destination[n].re = data[n].re + operand2[n].re;
      destination[n].im = data[n].im + operand2[n].im;
    }
  #endif
  }
  \<close>
  \<open>add_from\<close> is the loop. The two assignments of an iteration run one after the other:
  the second reads the memory the first has written. \<^verbatim>\<open>int32_t\<close> addition is the
  addition of \<open>32 word\<close>: where the sum leaves the range of \<^verbatim>\<open>int32_t\<close> (undefined in
  C++) the model wraps, as the add instruction does. \<^verbatim>\<open>size*2\<close> is unsigned 32-bit
  arithmetic and wraps as well.
\<close>

function add_from :: "memory \<Rightarrow> ComplexIntArray \<Rightarrow> ComplexIntArray \<Rightarrow> ComplexIntArray \<Rightarrow> nat \<Rightarrow> memory option" where
  "add_from m this operand2 destination n =
     (if n < unat (ComplexIntArray.size' this) then
        (case (elem (ComplexIntArray.data this) n, elem (ComplexIntArray.data operand2) n,
               elem (ComplexIntArray.data destination) n) of
           (Some a, Some b, Some d) \<Rightarrow>
             let m1 = set_re m d (ComplexInt.re (ints m a) + ComplexInt.re (ints m b));
                 m2 = set_im m1 d (ComplexInt.im (ints m1 a) + ComplexInt.im (ints m1 b))
             in add_from m2 this operand2 destination (Suc n)
         | _ \<Rightarrow> None)
      else Some m)"
  by pat_completeness auto
termination
  by (relation "measure (\<lambda>(m, this, operand2, destination, n). unat (ComplexIntArray.size' this) - n)") auto

declare add_from.simps [simp del]

definition add :: "build \<Rightarrow> memory \<Rightarrow> ComplexIntArray \<Rightarrow> ComplexIntArray \<Rightarrow> ComplexIntArray \<Rightarrow> memory option" where
  "add cfg m this operand2 destination =
     (case cfg of
        ARM_CORTEX \<Rightarrow>
          arm_add_q31 m (scalars (ComplexIntArray.data this)) (scalars (getData_int operand2))
            (scalars (getData_int destination)) (unat (ComplexIntArray.size' this * 2))
      | PORTABLE \<Rightarrow> add_from m this operand2 destination 0)"

text \<open>
  \<^verbatim>\<open>void add(ComplexIntArray operand2){ add(operand2, *this); }\<close>
\<close>

definition add_inplace :: "build \<Rightarrow> memory \<Rightarrow> ComplexIntArray \<Rightarrow> ComplexIntArray \<Rightarrow> memory option" where
  "add_inplace cfg m this operand2 = add cfg m this operand2 this"

subsection \<open>copyFrom and copyTo\<close>

text \<open>
  \<^verbatim>\<open>
  void copyFrom(ComplexShortArray operand2){
  #ifdef ARM_CORTEX
    arm_q15_to_q31((int16_t*)operand2.getData(), (int32_t*)data, size * 2);
  #else
    for(int n = 0; n < size; ++n){
      data[n].re = operand2[n].re;
      data[n].im = operand2[n].im ;
    }
  #endif
  }
  \<close>
  Assigning an \<^verbatim>\<open>int16_t\<close> to an \<^verbatim>\<open>int32_t\<close> keeps the value: \<open>scast\<close>.
\<close>

function copyFrom_from :: "memory \<Rightarrow> ComplexIntArray \<Rightarrow> ComplexShortArray \<Rightarrow> nat \<Rightarrow> memory option" where
  "copyFrom_from m this operand2 n =
     (if n < unat (ComplexIntArray.size' this) then
        (case (elem (ComplexIntArray.data this) n, elem (ComplexShortArray.data operand2) n) of
           (Some d, Some s) \<Rightarrow>
             let m1 = set_re m d (scast (ComplexShort.re (shorts m s)));
                 m2 = set_im m1 d (scast (ComplexShort.im (shorts m1 s)))
             in copyFrom_from m2 this operand2 (Suc n)
         | _ \<Rightarrow> None)
      else Some m)"
  by pat_completeness auto
termination
  by (relation "measure (\<lambda>(m, this, operand2, n). unat (ComplexIntArray.size' this) - n)") auto

declare copyFrom_from.simps [simp del]

definition copyFrom :: "build \<Rightarrow> memory \<Rightarrow> ComplexIntArray \<Rightarrow> ComplexShortArray \<Rightarrow> memory option" where
  "copyFrom cfg m this operand2 =
     (case cfg of
        ARM_CORTEX \<Rightarrow>
          arm_q15_to_q31 m (scalars (getData operand2)) (scalars (ComplexIntArray.data this))
            (unat (ComplexIntArray.size' this * 2))
      | PORTABLE \<Rightarrow> copyFrom_from m this operand2 0)"

text \<open>
  \<^verbatim>\<open>
  void copyTo(ComplexShortArray operand2){
  #ifdef ARM_CORTEX
    arm_q31_to_q15((int32_t*)data, (int16_t*)operand2.getData(), size * 2);
  #else
    for(int n = 0; n < size; ++n){
      data[n].re = (int16_t)operand2[n].re;
      data[n].im = (int16_t)operand2[n].im ;
    }
  #endif
  }
  \<close>
  In the loop the left-hand sides are \<^verbatim>\<open>data[n]\<close>, the cells of this array, and the
  right-hand sides read \<open>operand2\<close>. The cast \<^verbatim>\<open>(int16_t)\<close> of an \<^verbatim>\<open>int16_t\<close> is
  the identity (\<open>ucast\<close> from 16 to 16 bits); the assignment then widens as in
  \<open>copyFrom\<close>.
\<close>

function copyTo_from :: "memory \<Rightarrow> ComplexIntArray \<Rightarrow> ComplexShortArray \<Rightarrow> nat \<Rightarrow> memory option" where
  "copyTo_from m this operand2 n =
     (if n < unat (ComplexIntArray.size' this) then
        (case (elem (ComplexIntArray.data this) n, elem (ComplexShortArray.data operand2) n) of
           (Some d, Some s) \<Rightarrow>
             let m1 = set_re m d (scast (ucast (ComplexShort.re (shorts m s)) :: 16 word));
                 m2 = set_im m1 d (scast (ucast (ComplexShort.im (shorts m1 s)) :: 16 word))
             in copyTo_from m2 this operand2 (Suc n)
         | _ \<Rightarrow> None)
      else Some m)"
  by pat_completeness auto
termination
  by (relation "measure (\<lambda>(m, this, operand2, n). unat (ComplexIntArray.size' this) - n)") auto

declare copyTo_from.simps [simp del]

definition copyTo :: "build \<Rightarrow> memory \<Rightarrow> ComplexIntArray \<Rightarrow> ComplexShortArray \<Rightarrow> memory option" where
  "copyTo cfg m this operand2 =
     (case cfg of
        ARM_CORTEX \<Rightarrow>
          arm_q31_to_q15 m (scalars (ComplexIntArray.data this)) (scalars (getData operand2))
            (unat (ComplexIntArray.size' this * 2))
      | PORTABLE \<Rightarrow> copyTo_from m this operand2 0)"

section \<open>ComplexShort: magnitude and phase\<close>

text \<open>
  The polar accessors of \<open>ComplexShort\<close> compute in \<^verbatim>\<open>float\<close> and \<^verbatim>\<open>double\<close> and call
  \<^verbatim>\<open>atan2\<close>, \<^verbatim>\<open>cosf\<close>, \<^verbatim>\<open>sinf\<close>, \<^verbatim>\<open>sqrtf\<close> (declared through \<^verbatim>\<open>basicmaths.h\<close>)
  and the vector primitive \<^verbatim>\<open>arm_cmplx_mag_q15\<close>. None of these is in the sources, so
  they are parameters of the model: a platform gives the value each call returns, and the
  rounding of a real number to a \<^verbatim>\<open>float\<close> and to a \<^verbatim>\<open>double\<close>. Finite
  \<^verbatim>\<open>float\<close> and \<^verbatim>\<open>double\<close> values are real numbers. The theorems below state what they
  assume of a platform.
\<close>

record platform =
  atan2 :: "real \<Rightarrow> real \<Rightarrow> real"
  cosf :: "real \<Rightarrow> real"
  sinf :: "real \<Rightarrow> real"
  sqrtf :: "real \<Rightarrow> real"
  to_float :: "real \<Rightarrow> real"
  to_double :: "real \<Rightarrow> real"
  arm_cmplx_mag_q15 :: "16 word \<Rightarrow> 16 word \<Rightarrow> 16 word"

text \<open>
  \<^verbatim>\<open>(int16_t)x\<close> and \<^verbatim>\<open>int16_t(x)\<close> for a floating-point \<open>x\<close>: the fraction is dropped
  (truncation toward zero); the conversion is undefined, here \<open>None\<close>, when the truncated
  value is not an \<^verbatim>\<open>int16_t\<close>.
\<close>

definition to_int16 :: "real \<Rightarrow> 16 word option" where
  "to_int16 x =
     (if - 32769 < x \<and> x < 32768
      then Some (word_of_int (if 0 \<le> x then \<lfloor>x\<rfloor> else \<lceil>x\<rceil>))
      else None)"

text \<open>
  \<^verbatim>\<open>
  int16_t getMagnitude(){
  #ifdef ARM_CORTEX
    int16_t out;
    int16_t in[2] = {re, im};
    arm_cmplx_mag_q15(in, &out, 1);
    out = out >> 1;
    return out;
  #else
    #error TODO
    return int16_t(sqrtf(re*re+im*im) + 0.5);
  #endif
  }
  \<close>
  \<^verbatim>\<open>out >> 1\<close> on an \<^verbatim>\<open>int16_t\<close> is the arithmetic shift. In the other branch
  \<^verbatim>\<open>re*re+im*im\<close> is \<^verbatim>\<open>int\<close> arithmetic, which overflows (undefined) only when the sum
  is \<open>2^31\<close>; the sum is converted to \<^verbatim>\<open>float\<close> for \<^verbatim>\<open>sqrtf\<close>, and \<^verbatim>\<open>+ 0.5\<close> is a
  \<^verbatim>\<open>double\<close> addition.
\<close>

definition getMagnitude :: "build \<Rightarrow> platform \<Rightarrow> ComplexShort \<Rightarrow> 16 word option" where
  "getMagnitude cfg L this =
     (case cfg of
        ARM_CORTEX \<Rightarrow>
          Some (signed_drop_bit 1
                  (arm_cmplx_mag_q15 L (ComplexShort.re this) (ComplexShort.im this)))
      | PORTABLE \<Rightarrow>
          (let s = sint (ComplexShort.re this) * sint (ComplexShort.re this)
                   + sint (ComplexShort.im this) * sint (ComplexShort.im this)
           in if s < 2 ^ 31
              then to_int16 (to_double L (sqrtf L (to_float L (of_int s)) + 1 / 2))
              else None))"

text \<open>
  \<^verbatim>\<open>float getPhase(){ return atan2(im,re); }\<close>
\<close>

definition getPhase :: "platform \<Rightarrow> ComplexShort \<Rightarrow> real" where
  "getPhase L this =
     to_float L (atan2 L (of_int (sint (ComplexShort.im this))) (of_int (sint (ComplexShort.re this))))"

text \<open>
  \<^verbatim>\<open>
  void setPolar(int16_t magnitude, float phase){
    re=(int16_t)(magnitude*cosf(phase) + 0.5);
    im=(int16_t)(magnitude*sinf(phase) + 0.5);
  }
  \<close>
  The product is a \<^verbatim>\<open>float\<close> product, the sum with \<^verbatim>\<open>0.5\<close> a \<^verbatim>\<open>double\<close> sum. The
  result is the new value of the object; it does not depend on the old one.
\<close>

definition setPolar :: "platform \<Rightarrow> 16 word \<Rightarrow> real \<Rightarrow> ComplexShort option" where
  "setPolar L magnitude phase =
     (case to_int16 (to_double L (to_float L (of_int (sint magnitude) * cosf L phase) + 1 / 2)) of
        None \<Rightarrow> None
      | Some r \<Rightarrow>
          (case to_int16 (to_double L (to_float L (of_int (sint magnitude) * sinf L phase) + 1 / 2)) of
             None \<Rightarrow> None
           | Some i \<Rightarrow> Some \<lparr>ComplexShort.re = r, im = i\<rparr>))"

text \<open>
  \<^verbatim>\<open>
  void setPhase(float phase){
    int16_t magnitude=getMagnitude();
    setPolar(magnitude, phase);
  }
  \<close>
\<close>

definition setPhase :: "build \<Rightarrow> platform \<Rightarrow> real \<Rightarrow> ComplexShort \<Rightarrow> ComplexShort option" where
  "setPhase cfg L phase this =
     (case getMagnitude cfg L this of
        None \<Rightarrow> None
      | Some magnitude \<Rightarrow> setPolar L magnitude phase)"

text \<open>
  \<^verbatim>\<open>
  void setMagnitude(int16_t magnitude){
    float phase=getPhase();
    setPolar(magnitude, phase);
  }
  \<close>
\<close>

definition setMagnitude :: "platform \<Rightarrow> 16 word \<Rightarrow> ComplexShort \<Rightarrow> ComplexShort option" where
  "setMagnitude L magnitude this = setPolar L magnitude (getPhase L this)"

text \<open>
  What the theorems assume of the two roundings: on numbers up to \<open>65536\<close> in absolute
  value, rounding to \<^verbatim>\<open>float\<close> and rounding to \<^verbatim>\<open>double\<close> move a number by at most
  \<open>1/100\<close>. (Neighbouring \<^verbatim>\<open>float\<close> values below \<open>65536\<close> are at most \<open>1/256\<close>
  apart.)
\<close>

definition rounds_closely :: "platform \<Rightarrow> bool" where
  "rounds_closely L \<longleftrightarrow>
     (\<forall>x. \<bar>x\<bar> \<le> 65536 \<longrightarrow> \<bar>to_float L x - x\<bar> \<le> 1 / 100 \<and> \<bar>to_double L x - x\<bar> \<le> 1 / 100)"

section \<open>A small memory for the concrete cases\<close>

text \<open>
  \<open>ComplexShort\<close> cell 0 holds \<open>(1, 2)\<close>, cell 2 holds \<open>(1, 2)\<close> as well and cell 3
  holds \<open>(7, 2)\<close>; \<open>ComplexInt\<close> cell 1 holds \<open>(196608, 262144)\<close>, which is
  \<open>(3 * 2^16, 4 * 2^16)\<close>. Every other cell holds \<open>(0, 0)\<close>.
\<close>

definition ex_memory :: memory where
  "ex_memory =
     \<lparr>shorts = (\<lambda>c. \<lparr>ComplexShort.re = 0, im = 0\<rparr>)
                 (0 := \<lparr>ComplexShort.re = 1, im = 2\<rparr>,
                  2 := \<lparr>ComplexShort.re = 1, im = 2\<rparr>,
                  3 := \<lparr>ComplexShort.re = 7, im = 2\<rparr>),
      ints = (\<lambda>c. \<lparr>ComplexInt.re = 0, im = 0\<rparr>)
                 (1 := \<lparr>ComplexInt.re = 196608, im = 262144\<rparr>)\<rparr>"

text \<open>One-element and two-element views of these cells.\<close>

definition ex_A :: ComplexShortArray where
  "ex_A = ComplexShortArray_of (Ptr 0) 1"

definition ex_A2 :: ComplexShortArray where
  "ex_A2 = ComplexShortArray_of (Ptr 1) 1"

definition ex_B :: ComplexShortArray where
  "ex_B = ComplexShortArray_of (Ptr 2) 1"

definition ex_C :: ComplexShortArray where
  "ex_C = ComplexShortArray_of (Ptr 3) 1"

definition ex_W :: ComplexIntArray where
  "ex_W = ComplexIntArray_of (Ptr 0) 1"

definition ex_V :: ComplexIntArray where
  "ex_V = ComplexIntArray_of (Ptr 1) 1"


definition v_1_1 :: ComplexShort where
  "v_1_1 = \<lparr>ComplexShort.re = 1, im = 1\<rparr>"

text \<open>
  A platform for the concrete cases: the library functions are the exact real functions,
  the roundings change nothing, and the magnitude primitive returns twice the magnitude
  rounded to the nearest integer, so that the shift of \<open>getMagnitude\<close> gives the rounded
  magnitude.
\<close>

definition exact_atan2 :: "real \<Rightarrow> real \<Rightarrow> real" where
  "exact_atan2 y x =
     (if 0 < x then arctan (y / x)
      else if x < 0 then (if 0 \<le> y then arctan (y / x) + pi else arctan (y / x) - pi)
      else if 0 < y then pi / 2
      else if y < 0 then - (pi / 2)
      else 0)"

definition exact_platform :: platform where
  "exact_platform =
     \<lparr>atan2 = exact_atan2, cosf = cos, sinf = sin, sqrtf = sqrt,
      to_float = (\<lambda>x. x), to_double = (\<lambda>x. x),
      arm_cmplx_mag_q15 =
        (\<lambda>r i. word_of_int (2 * \<lfloor>sqrt (of_int (sint r * sint r + sint i * sint i)) + 1 / 2\<rfloor>))\<rparr>"

section \<open>Properties of equals\<close>

lemma equals_from_done:
  "\<not> n < unat (ComplexShortArray.size' this) \<Longrightarrow> equals_from m this other n = Some True"
  by (subst equals_from.simps) simp

lemma equals_from_cells:
  assumes "ComplexShortArray.data this = Ptr a" and "ComplexShortArray.data other = Ptr b"
  shows "equals_from m this other n =
           Some (\<forall>i. n \<le> i \<and> i < unat (ComplexShortArray.size' this) \<longrightarrow>
                   ComplexShort.re (shorts m (a + i)) = ComplexShort.re (shorts m (b + i))
                 \<and> ComplexShort.im (shorts m (a + i)) = ComplexShort.im (shorts m (b + i)))"
  using assms
proof (induction m this other n rule: equals_from.induct)
  case (1 m this other n)
  show ?case
  proof (cases "n < unat (ComplexShortArray.size' this)")
    case False
    then show ?thesis by (auto simp add: equals_from_done)
  next
    case inside: True
    show ?thesis
    proof (cases "ComplexShort.re (shorts m (a + n)) \<noteq> ComplexShort.re (shorts m (b + n))
                  \<or> ComplexShort.im (shorts m (a + n)) \<noteq> ComplexShort.im (shorts m (b + n))")
      case True
      have "equals_from m this other n = Some False"
        using inside True "1.prems" by (subst equals_from.simps) auto
      moreover have "\<not> (\<forall>i. n \<le> i \<and> i < unat (ComplexShortArray.size' this) \<longrightarrow>
                   ComplexShort.re (shorts m (a + i)) = ComplexShort.re (shorts m (b + i))
                 \<and> ComplexShort.im (shorts m (a + i)) = ComplexShort.im (shorts m (b + i)))"
        using inside True by (intro notI) (drule spec [of _ n], simp)
      ultimately show ?thesis by simp
    next
      case False
      have step: "equals_from m this other n = equals_from m this other (Suc n)"
        using inside False "1.prems" by (subst equals_from.simps) auto
      have ih: "equals_from m this other (Suc n) =
           Some (\<forall>i. Suc n \<le> i \<and> i < unat (ComplexShortArray.size' this) \<longrightarrow>
                   ComplexShort.re (shorts m (a + i)) = ComplexShort.re (shorts m (b + i))
                 \<and> ComplexShort.im (shorts m (a + i)) = ComplexShort.im (shorts m (b + i)))"
        using "1.IH" [of "Some (a + n)" "Some (b + n)" "a + n" "b + n"] inside False "1.prems"
        by simp
      have "(\<forall>i. n \<le> i \<and> i < unat (ComplexShortArray.size' this) \<longrightarrow>
                   ComplexShort.re (shorts m (a + i)) = ComplexShort.re (shorts m (b + i))
                 \<and> ComplexShort.im (shorts m (a + i)) = ComplexShort.im (shorts m (b + i)))
          = (\<forall>i. Suc n \<le> i \<and> i < unat (ComplexShortArray.size' this) \<longrightarrow>
                   ComplexShort.re (shorts m (a + i)) = ComplexShort.re (shorts m (b + i))
                 \<and> ComplexShort.im (shorts m (a + i)) = ComplexShort.im (shorts m (b + i)))"
        using False by (metis Suc_leI le_eq_less_or_eq Suc_leD)
      with step ih show ?thesis by simp
    qed
  qed
qed

text \<open>
  Claim C4. \<open>A.equals(B)\<close> is false whenever the sizes differ. With equal sizes (and
  arrays that have storage) it is true exactly when, at every index below the size, the
  two \<open>re\<close> members are the same 16-bit value and the two \<open>im\<close> members are the same
  16-bit value; nothing is compared with a tolerance.
\<close>

theorem equals_exact:
  "(ComplexShortArray.size' A \<noteq> ComplexShortArray.size' B \<longrightarrow> equals m A B = Some False)
   \<and> (ComplexShortArray.size' A = ComplexShortArray.size' B
        \<and> ComplexShortArray.data A = Ptr a \<and> ComplexShortArray.data B = Ptr b \<longrightarrow>
      equals m A B =
        Some (\<forall>i < unat (ComplexShortArray.size' A).
                ComplexShort.re (shorts m (a + i)) = ComplexShort.re (shorts m (b + i))
              \<and> ComplexShort.im (shorts m (a + i)) = ComplexShort.im (shorts m (b + i))))"
proof (intro conjI impI)
  assume "ComplexShortArray.size' A \<noteq> ComplexShortArray.size' B"
  then show "equals m A B = Some False"
    by (simp add: equals_def getSize_def)
next
  assume h: "ComplexShortArray.size' A = ComplexShortArray.size' B
        \<and> ComplexShortArray.data A = Ptr a \<and> ComplexShortArray.data B = Ptr b"
  then have "equals m A B = equals_from m A B 0"
    by (simp add: equals_def getSize_def)
  also have "\<dots> = Some (\<forall>i. 0 \<le> i \<and> i < unat (ComplexShortArray.size' A) \<longrightarrow>
                ComplexShort.re (shorts m (a + i)) = ComplexShort.re (shorts m (b + i))
              \<and> ComplexShort.im (shorts m (a + i)) = ComplexShort.im (shorts m (b + i)))"
    using h by (intro equals_from_cells) simp_all
  finally show "equals m A B =
        Some (\<forall>i < unat (ComplexShortArray.size' A).
                ComplexShort.re (shorts m (a + i)) = ComplexShort.re (shorts m (b + i))
              \<and> ComplexShort.im (shorts m (a + i)) = ComplexShort.im (shorts m (b + i)))"
    by simp
qed

text \<open>
  The theorem at work: a one-element array against a two-element array (sizes differ),
  against a one-element array with the same content, and against one whose \<open>re\<close> differs.
\<close>

theorem equals_exact_witness:
  "ComplexShortArray.size' ex_A \<noteq> ComplexShortArray.size' (ComplexShortArray_of (Ptr 2) 2)
   \<and> equals ex_memory ex_A (ComplexShortArray_of (Ptr 2) 2) = Some False
   \<and> ComplexShortArray.size' ex_A = ComplexShortArray.size' ex_B
   \<and> ComplexShortArray.data ex_A = Ptr 0 \<and> ComplexShortArray.data ex_B = Ptr 2
   \<and> equals ex_memory ex_A ex_B = Some True
   \<and> ComplexShortArray.size' ex_A = ComplexShortArray.size' ex_C
   \<and> ComplexShortArray.data ex_C = Ptr 3
   \<and> equals ex_memory ex_A ex_C = Some False"
  using equals_exact [of ex_A "ComplexShortArray_of (Ptr 2) 2" ex_memory 0 2]
        equals_exact [of ex_A ex_B ex_memory 0 2]
        equals_exact [of ex_A ex_C ex_memory 0 3]
  by (simp add: ex_A_def ex_B_def ex_C_def ex_memory_def ComplexShortArray_of_def)

section \<open>Default-constructed arrays\<close>

text \<open>
  Claim C10. A default-constructed \<open>ComplexShortArray\<close>, and likewise a
  default-constructed \<open>ComplexIntArray\<close>, has a null data pointer and size 0, so
  \<open>getSize()\<close> is 0. \<open>equals\<close> of two default-constructed arrays is true, and
  \<open>equals\<close> of a default-constructed array and an array of nonzero size is false, in
  either order. In each case the call returns a value (it does not fault on the null
  pointer) and the value is the same in every memory: no element is read.
\<close>

theorem default_constructed:
  "ComplexShortArray.data ComplexShortArray_default = NULL
   \<and> ComplexShortArray.size' ComplexShortArray_default = 0
   \<and> ComplexIntArray.data ComplexIntArray_default = NULL
   \<and> ComplexIntArray.size' ComplexIntArray_default = 0
   \<and> getSize ComplexShortArray_default = 0
   \<and> getSize_int ComplexIntArray_default = 0
   \<and> equals m ComplexShortArray_default ComplexShortArray_default = Some True
   \<and> (getSize B \<noteq> 0 \<longrightarrow>
         equals m ComplexShortArray_default B = Some False
       \<and> equals m B ComplexShortArray_default = Some False)"
proof -
  have fields: "ComplexShortArray.data ComplexShortArray_default = NULL"
      "ComplexShortArray.size' ComplexShortArray_default = 0"
      "ComplexIntArray.data ComplexIntArray_default = NULL"
      "ComplexIntArray.size' ComplexIntArray_default = 0"
    by (simp_all add: ComplexShortArray_default_def ComplexIntArray_default_def)
  have sizes: "getSize ComplexShortArray_default = 0" "getSize_int ComplexIntArray_default = 0"
    using fields by (simp_all add: getSize_def getSize_int_def)
  have "equals m ComplexShortArray_default ComplexShortArray_default
          = equals_from m ComplexShortArray_default ComplexShortArray_default 0"
    by (simp add: equals_def getSize_def)
  also have "\<dots> = Some True"
    using fields by (intro equals_from_done) simp
  finally have both: "equals m ComplexShortArray_default ComplexShortArray_default = Some True" .
  have other: "equals m ComplexShortArray_default B = Some False
       \<and> equals m B ComplexShortArray_default = Some False" if "getSize B \<noteq> 0"
    using that fields by (auto simp add: equals_def getSize_def)
  from fields sizes both other show ?thesis by blast
qed

text \<open>
  The theorem at work, against the one-element array \<open>ex_A\<close> (the null pointer of the
  default-constructed array is never followed) and against an array of nonzero size whose
  own pointer is null.
\<close>

theorem default_constructed_witness:
  "getSize ex_A \<noteq> 0
   \<and> equals ex_memory ComplexShortArray_default ex_A = Some False
   \<and> equals ex_memory ex_A ComplexShortArray_default = Some False
   \<and> getSize (ComplexShortArray_of NULL 4) \<noteq> 0
   \<and> equals ex_memory ComplexShortArray_default (ComplexShortArray_of NULL 4) = Some False
   \<and> equals ex_memory ComplexShortArray_default ComplexShortArray_default = Some True"
  using default_constructed [of ex_memory ex_A]
        default_constructed [of ex_memory "ComplexShortArray_of NULL 4"]
  by (simp add: ex_A_def ComplexShortArray_of_def getSize_def)

section \<open>add in place\<close>

lemma add_from_destination:
  "ComplexIntArray.data D = ComplexIntArray.data D' \<Longrightarrow>
     add_from m this operand2 D n = add_from m this operand2 D' n"
proof (induction m this operand2 D n rule: add_from.induct)
  case (1 m this operand2 destination n)
  show ?case
  proof (cases "n < unat (ComplexIntArray.size' this)")
    case False
    then show ?thesis
      by (simp add: add_from.simps [of m this operand2 destination n]
                    add_from.simps [of m this operand2 D' n])
  next
    case True
    show ?thesis
    proof (cases "elem (ComplexIntArray.data this) n")
      case None
      then show ?thesis using True
        by (simp add: add_from.simps [of m this operand2 destination n]
                      add_from.simps [of m this operand2 D' n])
    next
      case a: (Some a)
      show ?thesis
      proof (cases "elem (ComplexIntArray.data operand2) n")
        case None
        then show ?thesis using True a
          by (simp add: add_from.simps [of m this operand2 destination n]
                        add_from.simps [of m this operand2 D' n])
      next
        case b: (Some b)
        show ?thesis
        proof (cases "elem (ComplexIntArray.data destination) n")
          case None
          then show ?thesis using True a b "1.prems"
            by (simp add: add_from.simps [of m this operand2 destination n]
                          add_from.simps [of m this operand2 D' n])
        next
          case d: (Some d)
          define m1 where "m1 = set_re m d (ComplexInt.re (ints m a) + ComplexInt.re (ints m b))"
          define m2 where "m2 = set_im m1 d (ComplexInt.im (ints m1 a) + ComplexInt.im (ints m1 b))"
          have ih: "add_from m2 this operand2 destination (Suc n) = add_from m2 this operand2 D' (Suc n)"
            using "1.IH" [OF True refl a refl b d m1_def m2_def] "1.prems"
            by simp
          have l: "add_from m this operand2 destination n = add_from m2 this operand2 destination (Suc n)"
            using True a b d
            by (simp add: add_from.simps [of m this operand2 destination n] m1_def m2_def Let_def)
          have r: "add_from m this operand2 D' n = add_from m2 this operand2 D' (Suc n)"
            using True a b d "1.prems"
            by (simp add: add_from.simps [of m this operand2 D' n] m1_def m2_def Let_def)
          from l r ih show ?thesis by simp
        qed
      qed
    qed
  qed
qed

text \<open>
  Claim C9. The in-place \<open>A.add(B)\<close> is \<open>add\<close> with this array as the destination:
  it leaves memory, and so the elements of \<open>A\<close>, exactly as \<open>A.add(B, D)\<close> does for
  every destination \<open>D\<close> that aliases \<open>A\<close> (a handle on the same storage), in both
  builds. Only the storage of \<open>D\<close> matters; the loop bound is the size of \<open>A\<close>.
\<close>

theorem add_inplace_aliased:
  "ComplexIntArray.data D = ComplexIntArray.data A \<Longrightarrow>
     add_inplace cfg m A B = add cfg m A B D"
proof (cases cfg)
  case ARM_CORTEX
  assume "ComplexIntArray.data D = ComplexIntArray.data A"
  with ARM_CORTEX show ?thesis
    by (simp add: add_inplace_def add_def getData_int_def)
next
  case PORTABLE
  assume "ComplexIntArray.data D = ComplexIntArray.data A"
  then have "add_from m A B A 0 = add_from m A B D 0"
    by (intro add_from_destination) simp
  with PORTABLE show ?thesis
    by (simp add: add_inplace_def add_def)
qed

text \<open>
  The theorem at work: \<open>ex_V\<close> added to itself in place, and through a destination
  handle on the same cell that claims seven elements. The cell \<open>(196608, 262144)\<close>
  becomes \<open>(393216, 524288)\<close>.
\<close>

theorem add_inplace_aliased_witness:
  "ComplexIntArray.data (ComplexIntArray_of (Ptr 1) 7) = ComplexIntArray.data ex_V
   \<and> add_inplace PORTABLE ex_memory ex_V ex_V
       = add PORTABLE ex_memory ex_V ex_V (ComplexIntArray_of (Ptr 1) 7)
   \<and> add_inplace ARM_CORTEX ex_memory ex_V ex_V
       = add ARM_CORTEX ex_memory ex_V ex_V (ComplexIntArray_of (Ptr 1) 7)
   \<and> map_option (\<lambda>m. ints m 1) (add_inplace PORTABLE ex_memory ex_V ex_V)
       = Some \<lparr>ComplexInt.re = 393216, im = 524288\<rparr>"
proof -
  have same: "ComplexIntArray.data (ComplexIntArray_of (Ptr 1) 7) = ComplexIntArray.data ex_V"
    by (simp add: ex_V_def ComplexIntArray_of_def)
  have val: "map_option (\<lambda>m. ints m 1) (add_inplace PORTABLE ex_memory ex_V ex_V)
       = Some \<lparr>ComplexInt.re = 393216, im = 524288\<rparr>"
    by code_simp
  from same val add_inplace_aliased [OF same, of PORTABLE ex_memory ex_V]
       add_inplace_aliased [OF same, of ARM_CORTEX ex_memory ex_V]
  show ?thesis by simp
qed

section \<open>The element conversions\<close>

text \<open>
  Read as signed numbers: widening by \<open>q15_to_q31\<close> multiplies by \<open>2^16\<close>, narrowing
  by \<open>q31_to_q15\<close> divides by \<open>2^16\<close> rounding down (the 16 low-order bits are
  dropped), narrowing undoes widening, and the plain conversion from \<^verbatim>\<open>int16_t\<close> to
  \<^verbatim>\<open>int32_t\<close> keeps the number.
\<close>

lemma sint_short_range: "- 32768 \<le> sint (x :: 16 word) \<and> sint x < 32768"
  using sint_ge [of x] sint_lt [of x] by simp

lemma sint_int_range: "- 2147483648 \<le> sint (x :: 32 word) \<and> sint x < 2147483648"
  using sint_ge [of x] sint_lt [of x] by simp

lemma sint_scast_short: "sint (scast (x :: 16 word) :: 32 word) = sint x"
proof -
  have "sint (scast x :: 32 word) = signed_take_bit 31 (sint x)"
    by (simp add: signed_scast_eq)
  also have "\<dots> = sint x"
    using sint_short_range [of x] by (intro signed_take_bit_int_eq_self) simp_all
  finally show ?thesis .
qed

lemma sint_q15_to_q31: "sint (q15_to_q31 x) = 65536 * sint x"
proof -
  have "sint (q15_to_q31 x) = signed_take_bit 31 (push_bit 16 (sint (scast x :: 32 word)))"
    by (simp add: q15_to_q31_def signed_push_bit_eq)
  also have "\<dots> = signed_take_bit 31 (65536 * sint x)"
    by (simp add: sint_scast_short push_bit_eq_mult mult.commute)
  also have "\<dots> = 65536 * sint x"
    using sint_short_range [of x] by (intro signed_take_bit_int_eq_self) simp_all
  finally show ?thesis .
qed

lemma sint_q31_to_q15: "sint (q31_to_q15 x) = sint x div 65536"
proof -
  have "(ucast (signed_drop_bit 16 x) :: 16 word) = scast (signed_drop_bit 16 x)"
    by (rule bit_word_eqI) (auto simp add: bit_simps)
  then have "sint (q31_to_q15 x) = signed_take_bit 15 (sint (signed_drop_bit 16 x))"
    by (simp add: q31_to_q15_def signed_scast_eq)
  also have "\<dots> = signed_take_bit 15 (sint x div 65536)"
    by (simp add: sint_signed_drop_bit_eq drop_bit_eq_div)
  also have "\<dots> = sint x div 65536"
  proof (intro signed_take_bit_int_eq_self)
    show "- (2 ^ 15) \<le> sint x div 65536"
      using sint_int_range [of x] by simp linarith
    show "sint x div 65536 < 2 ^ 15"
      using sint_int_range [of x] by simp linarith
  qed
  finally show ?thesis .
qed

lemma q31_to_q15_q15_to_q31: "q31_to_q15 (q15_to_q31 x) = x"
  unfolding q31_to_q15_def q15_to_q31_def
  by (rule bit_word_eqI) (auto simp add: bit_simps)

lemma unat_twice: "unat (n :: 32 word) < 2 ^ 31 \<Longrightarrow> unat (n * 2) = 2 * unat n"
proof -
  assume "unat n < 2 ^ 31"
  then have "unat n * unat (2 :: 32 word) < 2 ^ LENGTH(32)" by simp
  then have "unat (n * 2) = unat n * unat (2 :: 32 word)"
    by (simp only: unat_mult_lem)
  then show ?thesis by simp
qed

section \<open>Reading and writing memory\<close>

lemma shorts_set_int [simp]:
  "shorts (set_re m c v) = shorts m" "shorts (set_im m c v) = shorts m"
  by (simp_all add: set_re_def set_im_def)

lemma ints_set_short [simp]:
  "ints (set_re_short m c v) = ints m" "ints (set_im_short m c v) = ints m"
  by (simp_all add: set_re_short_def set_im_short_def)

lemma ints_set_re:
  "ints (set_re m c v) c' = (if c' = c then (ints m c)\<lparr>ComplexInt.re := v\<rparr> else ints m c')"
  by (simp add: set_re_def)

lemma ints_set_im:
  "ints (set_im m c v) c' = (if c' = c then (ints m c)\<lparr>ComplexInt.im := v\<rparr> else ints m c')"
  by (simp add: set_im_def)

lemma shorts_set_re_short:
  "shorts (set_re_short m c v) c' = (if c' = c then (shorts m c)\<lparr>ComplexShort.re := v\<rparr> else shorts m c')"
  by (simp add: set_re_short_def)

lemma shorts_set_im_short:
  "shorts (set_im_short m c v) c' = (if c' = c then (shorts m c)\<lparr>ComplexShort.im := v\<rparr> else shorts m c')"
  by (simp add: set_im_short_def)

lemma same_scalar: "j div 2 = k div 2 \<Longrightarrow> even j = even k \<Longrightarrow> j = (k :: nat)"
  by presburger

lemma shorts_store_q31 [simp]: "shorts (store_q31 m k v) = shorts m"
  by (simp add: store_q31_def)

lemma ints_store_q15 [simp]: "ints (store_q15 m k v) = ints m"
  by (simp add: store_q15_def)

lemma load_q15_store_q31 [simp]: "load_q15 (store_q31 m k v) j = load_q15 m j"
  by (simp add: load_q15_def)

lemma load_q31_store_q15 [simp]: "load_q31 (store_q15 m k v) j = load_q31 m j"
  by (simp add: load_q31_def)

lemma load_q31_store_q31:
  "load_q31 (store_q31 m k v) j = (if j = k then v else load_q31 m j)"
  using same_scalar [of j k]
  by (auto simp add: load_q31_def store_q31_def ints_set_re ints_set_im)

lemma load_q15_store_q15:
  "load_q15 (store_q15 m k v) j = (if j = k then v else load_q15 m j)"
  using same_scalar [of j k]
  by (auto simp add: load_q15_def store_q15_def shorts_set_re_short shorts_set_im_short)

lemma arm_q15_to_q31_result:
  "\<exists>m'. arm_q15_to_q31 m (Ptr s) (Ptr d) k = Some m' \<and> shorts m' = shorts m \<and>
     (\<forall>j. load_q31 m' j =
        (if d \<le> j \<and> j < d + k then q15_to_q31 (load_q15 m (s + (j - d))) else load_q31 m j))"
proof (induction k arbitrary: m s d)
  case 0
  then show ?case by auto
next
  case (Suc k)
  define m1 where "m1 = store_q31 m d (q15_to_q31 (load_q15 m s))"
  from Suc [of m1 "Suc s" "Suc d"] obtain m' where
    run: "arm_q15_to_q31 m1 (Ptr (Suc s)) (Ptr (Suc d)) k = Some m'"
    and sh: "shorts m' = shorts m1"
    and ld: "\<And>j. load_q31 m' j =
        (if Suc d \<le> j \<and> j < Suc d + k then q15_to_q31 (load_q15 m1 (Suc s + (j - Suc d)))
         else load_q31 m1 j)"
    by blast
  have "arm_q15_to_q31 m (Ptr s) (Ptr d) (Suc k) = Some m'"
    using run by (simp add: m1_def)
  moreover have "shorts m' = shorts m"
    using sh by (simp add: m1_def)
  moreover have "load_q31 m' j =
        (if d \<le> j \<and> j < d + Suc k then q15_to_q31 (load_q15 m (s + (j - d))) else load_q31 m j)" for j
  proof (cases "j = d")
    case True
    then show ?thesis by (simp add: ld m1_def load_q31_store_q31)
  next
    case False
    then have "Suc s + (j - Suc d) = s + (j - d)" if "Suc d \<le> j"
      using that by simp
    then show ?thesis using False
      by (auto simp add: ld m1_def load_q31_store_q31)
  qed
  ultimately show ?case by blast
qed

lemma arm_q31_to_q15_result:
  "\<exists>m'. arm_q31_to_q15 m (Ptr s) (Ptr d) k = Some m' \<and> ints m' = ints m \<and>
     (\<forall>j. load_q15 m' j =
        (if d \<le> j \<and> j < d + k then q31_to_q15 (load_q31 m (s + (j - d))) else load_q15 m j))"
proof (induction k arbitrary: m s d)
  case 0
  then show ?case by auto
next
  case (Suc k)
  define m1 where "m1 = store_q15 m d (q31_to_q15 (load_q31 m s))"
  from Suc [of m1 "Suc s" "Suc d"] obtain m' where
    run: "arm_q31_to_q15 m1 (Ptr (Suc s)) (Ptr (Suc d)) k = Some m'"
    and sh: "ints m' = ints m1"
    and ld: "\<And>j. load_q15 m' j =
        (if Suc d \<le> j \<and> j < Suc d + k then q31_to_q15 (load_q31 m1 (Suc s + (j - Suc d)))
         else load_q15 m1 j)"
    by blast
  have "arm_q31_to_q15 m (Ptr s) (Ptr d) (Suc k) = Some m'"
    using run by (simp add: m1_def)
  moreover have "ints m' = ints m"
    using sh by (simp add: m1_def)
  moreover have "load_q15 m' j =
        (if d \<le> j \<and> j < d + Suc k then q31_to_q15 (load_q31 m (s + (j - d))) else load_q15 m j)" for j
  proof (cases "j = d")
    case True
    then show ?thesis by (simp add: ld m1_def load_q15_store_q15)
  next
    case False
    then have "Suc s + (j - Suc d) = s + (j - d)" if "Suc d \<le> j"
      using that by simp
    then show ?thesis using False
      by (auto simp add: ld m1_def load_q15_store_q15)
  qed
  ultimately show ?case by blast
qed

section \<open>What the loop of add leaves in memory\<close>

text \<open>
  The loop of \<open>add\<close> stores in each element of the destination the sum of the elements of
  the two operands at the same index, and changes nothing else. This is for a destination
  that, with respect to each operand, is the same storage or does not overlap it.
\<close>

lemma add_from_general:
  assumes A: "ComplexIntArray.data A = Ptr a" and B: "ComplexIntArray.data B = Ptr b"
    and D: "ComplexIntArray.data D = Ptr d"
    and apartA: "a = d \<or> a + unat (ComplexIntArray.size' A) \<le> d
                \<or> d + unat (ComplexIntArray.size' A) \<le> a"
    and apartB: "b = d \<or> b + unat (ComplexIntArray.size' A) \<le> d
                \<or> d + unat (ComplexIntArray.size' A) \<le> b"
  shows "\<exists>m'. add_from m A B D n = Some m' \<and> shorts m' = shorts m
     \<and> (\<forall>c. ints m' c =
           (if d + n \<le> c \<and> c < d + unat (ComplexIntArray.size' A)
            then \<lparr>ComplexInt.re = ComplexInt.re (ints m (a + (c - d)))
                                     + ComplexInt.re (ints m (b + (c - d))),
                  im = ComplexInt.im (ints m (a + (c - d)))
                       + ComplexInt.im (ints m (b + (c - d)))\<rparr>
            else ints m c))"
proof (induction "unat (ComplexIntArray.size' A) - n" arbitrary: n m)
  case 0
  then have "add_from m A B D n = Some m"
    by (simp add: add_from.simps [of m A B D n])
  with 0 show ?case by auto
next
  case (Suc k)
  define N where "N = unat (ComplexIntArray.size' A)"
  from Suc have inside: "n < N" by (simp add: N_def)
  define m1 where "m1 = set_re m (d + n)
     (ComplexInt.re (ints m (a + n)) + ComplexInt.re (ints m (b + n)))"
  define m2 where "m2 = set_im m1 (d + n)
     (ComplexInt.im (ints m1 (a + n)) + ComplexInt.im (ints m1 (b + n)))"
  have step: "add_from m A B D n = add_from m2 A B D (Suc n)"
    using inside A B D by (simp add: add_from.simps [of m A B D n] m1_def m2_def Let_def N_def)
  have sh2: "shorts m2 = shorts m"
    by (simp add: m1_def m2_def)
  have cell: "ints m2 c = (if c = d + n
      then \<lparr>ComplexInt.re = ComplexInt.re (ints m (a + n)) + ComplexInt.re (ints m (b + n)),
            im = ComplexInt.im (ints m (a + n)) + ComplexInt.im (ints m (b + n))\<rparr>
      else ints m c)" for c
    by (simp add: m1_def m2_def ints_set_re ints_set_im)
  have otherA: "a + (c - d) \<noteq> d + n" if "d + Suc n \<le> c" "c < d + N" for c
    using that apartA inside unfolding N_def by auto
  have otherB: "b + (c - d) \<noteq> d + n" if "d + Suc n \<le> c" "c < d + N" for c
    using that apartB inside unfolding N_def by auto
  from Suc have "k = unat (ComplexIntArray.size' A) - Suc n" by simp
  from Suc.hyps(1) [OF this, of m2] obtain m' where
    run: "add_from m2 A B D (Suc n) = Some m'"
    and sh: "shorts m' = shorts m2"
    and ld: "\<And>c. ints m' c =
           (if d + Suc n \<le> c \<and> c < d + N
            then \<lparr>ComplexInt.re = ComplexInt.re (ints m2 (a + (c - d)))
                                     + ComplexInt.re (ints m2 (b + (c - d))),
                  im = ComplexInt.im (ints m2 (a + (c - d)))
                       + ComplexInt.im (ints m2 (b + (c - d)))\<rparr>
            else ints m2 c)"
    unfolding N_def by blast
  have "ints m' c =
           (if d + n \<le> c \<and> c < d + N
            then \<lparr>ComplexInt.re = ComplexInt.re (ints m (a + (c - d)))
                                     + ComplexInt.re (ints m (b + (c - d))),
                  im = ComplexInt.im (ints m (a + (c - d)))
                       + ComplexInt.im (ints m (b + (c - d)))\<rparr>
            else ints m c)" for c
  proof (cases "c = d + n")
    case True
    then show ?thesis using inside by (simp add: ld cell)
  next
    case False
    show ?thesis
    proof (cases "d + Suc n \<le> c \<and> c < d + N")
      case True
      with otherA [of c] otherB [of c]
      have "a + (c - d) \<noteq> d + n" "b + (c - d) \<noteq> d + n" by simp_all
      with True False show ?thesis by (simp add: ld cell)
    next
      case False
      with \<open>c \<noteq> d + n\<close> show ?thesis by (auto simp add: ld cell)
    qed
  qed
  with step run sh sh2 show ?case unfolding N_def by auto
qed

lemma add_inplace_PORTABLE_result:
  assumes A: "ComplexIntArray.data A = Ptr a" and B: "ComplexIntArray.data B = Ptr b"
    and apart: "b = a \<or> b + unat (ComplexIntArray.size' A) \<le> a
                \<or> a + unat (ComplexIntArray.size' A) \<le> b"
  shows "\<exists>m'. add_inplace PORTABLE m A B = Some m' \<and> shorts m' = shorts m
     \<and> (\<forall>c. c < a \<or> a + unat (ComplexIntArray.size' A) \<le> c \<longrightarrow> ints m' c = ints m c)
     \<and> (\<forall>i < unat (ComplexIntArray.size' A).
           ComplexInt.re (ints m' (a + i))
             = ComplexInt.re (ints m (a + i)) + ComplexInt.re (ints m (b + i))
         \<and> ComplexInt.im (ints m' (a + i))
             = ComplexInt.im (ints m (a + i)) + ComplexInt.im (ints m (b + i)))"
proof -
  have same: "a = a \<or> a + unat (ComplexIntArray.size' A) \<le> a
                \<or> a + unat (ComplexIntArray.size' A) \<le> a"
    by simp
  from add_from_general [OF A B A same apart, of m 0] obtain m' where
    run: "add_from m A B A 0 = Some m'"
    and sh: "shorts m' = shorts m"
    and ld: "\<And>c. ints m' c =
           (if a + 0 \<le> c \<and> c < a + unat (ComplexIntArray.size' A)
            then \<lparr>ComplexInt.re = ComplexInt.re (ints m (a + (c - a)))
                                     + ComplexInt.re (ints m (b + (c - a))),
                  im = ComplexInt.im (ints m (a + (c - a)))
                       + ComplexInt.im (ints m (b + (c - a)))\<rparr>
            else ints m c)"
    by blast
  have "add_inplace PORTABLE m A B = Some m'"
    using run by (simp add: add_inplace_def add_def)
  moreover have "ints m' c = ints m c" if "c < a \<or> a + unat (ComplexIntArray.size' A) \<le> c" for c
    using that by (auto simp add: ld)
  moreover have "ComplexInt.re (ints m' (a + i))
             = ComplexInt.re (ints m (a + i)) + ComplexInt.re (ints m (b + i))
         \<and> ComplexInt.im (ints m' (a + i))
             = ComplexInt.im (ints m (a + i)) + ComplexInt.im (ints m (b + i))"
    if "i < unat (ComplexIntArray.size' A)" for i
    using that by (simp add: ld)
  ultimately show ?thesis using sh by blast
qed

section \<open>What copyFrom and copyTo leave in memory\<close>

text \<open>
  The results are stated for arrays that have storage and fewer than \<open>2^31\<close> elements,
  so that \<^verbatim>\<open>size * 2\<close> does not wrap.
\<close>

lemma re_int_scalar: "ComplexInt.re (ints m c) = load_q31 m (2 * c)"
  by (simp add: load_q31_def)

lemma im_int_scalar: "ComplexInt.im (ints m c) = load_q31 m (Suc (2 * c))"
  by (simp add: load_q31_def)

lemma re_short_scalar: "ComplexShort.re (shorts m c) = load_q15 m (2 * c)"
  by (simp add: load_q15_def)

lemma im_short_scalar: "ComplexShort.im (shorts m c) = load_q15 m (Suc (2 * c))"
  by (simp add: load_q15_def)

lemma int_cell_eqI:
  "load_q31 m' (2 * c) = load_q31 m (2 * c) \<Longrightarrow> load_q31 m' (Suc (2 * c)) = load_q31 m (Suc (2 * c))
     \<Longrightarrow> ints m' c = ints m c"
  by (simp add: load_q31_def)

lemma short_cell_eqI:
  "load_q15 m' (2 * c) = load_q15 m (2 * c) \<Longrightarrow> load_q15 m' (Suc (2 * c)) = load_q15 m (Suc (2 * c))
     \<Longrightarrow> shorts m' c = shorts m c"
  by (simp add: load_q15_def)

lemma copyFrom_ARM_CORTEX_result:
  assumes W: "ComplexIntArray.data W = Ptr w" and A: "ComplexShortArray.data A = Ptr a"
    and small: "unat (ComplexIntArray.size' W) < 2 ^ 31"
  shows "\<exists>m'. copyFrom ARM_CORTEX m W A = Some m' \<and> shorts m' = shorts m
     \<and> (\<forall>c. c < w \<or> w + unat (ComplexIntArray.size' W) \<le> c \<longrightarrow> ints m' c = ints m c)
     \<and> (\<forall>i < unat (ComplexIntArray.size' W).
           ComplexInt.re (ints m' (w + i)) = q15_to_q31 (ComplexShort.re (shorts m (a + i)))
         \<and> ComplexInt.im (ints m' (w + i)) = q15_to_q31 (ComplexShort.im (shorts m (a + i))))"
proof -
  define N where "N = unat (ComplexIntArray.size' W)"
  have call: "copyFrom ARM_CORTEX m W A = arm_q15_to_q31 m (Ptr (2 * a)) (Ptr (2 * w)) (2 * N)"
    using W A small by (simp add: copyFrom_def getData_def unat_twice N_def)
  from arm_q15_to_q31_result [of m "2 * a" "2 * w" "2 * N"] obtain m' where
    run: "arm_q15_to_q31 m (Ptr (2 * a)) (Ptr (2 * w)) (2 * N) = Some m'"
    and sh: "shorts m' = shorts m"
    and ld: "\<And>j. load_q31 m' j =
        (if 2 * w \<le> j \<and> j < 2 * w + 2 * N then q15_to_q31 (load_q15 m (2 * a + (j - 2 * w)))
         else load_q31 m j)"
    by blast
  have frame: "ints m' c = ints m c" if "c < w \<or> w + N \<le> c" for c
    using that by (intro int_cell_eqI) (auto simp add: ld)
  have cells: "ComplexInt.re (ints m' (w + i)) = q15_to_q31 (ComplexShort.re (shorts m (a + i)))
         \<and> ComplexInt.im (ints m' (w + i)) = q15_to_q31 (ComplexShort.im (shorts m (a + i)))"
    if "i < N" for i
  proof -
    have "2 * a + (2 * (w + i) - 2 * w) = 2 * (a + i)"
      and "2 * a + (Suc (2 * (w + i)) - 2 * w) = Suc (2 * (a + i))"
      by simp_all
    then show ?thesis using that
      by (simp add: re_int_scalar im_int_scalar re_short_scalar im_short_scalar ld)
  qed
  from call run sh frame cells show ?thesis
    unfolding N_def by auto
qed

lemma copyTo_ARM_CORTEX_result:
  assumes W: "ComplexIntArray.data W = Ptr w" and A: "ComplexShortArray.data A = Ptr a"
    and small: "unat (ComplexIntArray.size' W) < 2 ^ 31"
  shows "\<exists>m'. copyTo ARM_CORTEX m W A = Some m' \<and> ints m' = ints m
     \<and> (\<forall>c. c < a \<or> a + unat (ComplexIntArray.size' W) \<le> c \<longrightarrow> shorts m' c = shorts m c)
     \<and> (\<forall>i < unat (ComplexIntArray.size' W).
           ComplexShort.re (shorts m' (a + i)) = q31_to_q15 (ComplexInt.re (ints m (w + i)))
         \<and> ComplexShort.im (shorts m' (a + i)) = q31_to_q15 (ComplexInt.im (ints m (w + i))))"
proof -
  define N where "N = unat (ComplexIntArray.size' W)"
  have call: "copyTo ARM_CORTEX m W A = arm_q31_to_q15 m (Ptr (2 * w)) (Ptr (2 * a)) (2 * N)"
    using W A small by (simp add: copyTo_def getData_def unat_twice N_def)
  from arm_q31_to_q15_result [of m "2 * w" "2 * a" "2 * N"] obtain m' where
    run: "arm_q31_to_q15 m (Ptr (2 * w)) (Ptr (2 * a)) (2 * N) = Some m'"
    and sh: "ints m' = ints m"
    and ld: "\<And>j. load_q15 m' j =
        (if 2 * a \<le> j \<and> j < 2 * a + 2 * N then q31_to_q15 (load_q31 m (2 * w + (j - 2 * a)))
         else load_q15 m j)"
    by blast
  have frame: "shorts m' c = shorts m c" if "c < a \<or> a + N \<le> c" for c
    using that by (intro short_cell_eqI) (auto simp add: ld)
  have cells: "ComplexShort.re (shorts m' (a + i)) = q31_to_q15 (ComplexInt.re (ints m (w + i)))
         \<and> ComplexShort.im (shorts m' (a + i)) = q31_to_q15 (ComplexInt.im (ints m (w + i)))"
    if "i < N" for i
  proof -
    have "2 * w + (2 * (a + i) - 2 * a) = 2 * (w + i)"
      and "2 * w + (Suc (2 * (a + i)) - 2 * a) = Suc (2 * (w + i))"
      by simp_all
    then show ?thesis using that
      by (simp add: re_int_scalar im_int_scalar re_short_scalar im_short_scalar ld)
  qed
  from call run sh frame cells show ?thesis
    unfolding N_def by auto
qed

lemma copyFrom_from_result:
  assumes W: "ComplexIntArray.data W = Ptr w" and A: "ComplexShortArray.data A = Ptr a"
  shows "\<exists>m'. copyFrom_from m W A n = Some m' \<and> shorts m' = shorts m
     \<and> (\<forall>c. ints m' c =
           (if w + n \<le> c \<and> c < w + unat (ComplexIntArray.size' W)
            then \<lparr>ComplexInt.re = scast (ComplexShort.re (shorts m (a + (c - w)))),
                  im = scast (ComplexShort.im (shorts m (a + (c - w))))\<rparr>
            else ints m c))"
proof (induction "unat (ComplexIntArray.size' W) - n" arbitrary: n m)
  case 0
  then have "copyFrom_from m W A n = Some m"
    by (simp add: copyFrom_from.simps [of m W A n])
  with 0 show ?case by auto
next
  case (Suc k)
  then have inside: "n < unat (ComplexIntArray.size' W)" by simp
  define m1 where "m1 = set_re m (w + n) (scast (ComplexShort.re (shorts m (a + n))))"
  define m2 where "m2 = set_im m1 (w + n) (scast (ComplexShort.im (shorts m1 (a + n))))"
  have step: "copyFrom_from m W A n = copyFrom_from m2 W A (Suc n)"
    using inside W A by (simp add: copyFrom_from.simps [of m W A n] m1_def m2_def Let_def)
  have sh2: "shorts m2 = shorts m"
    by (simp add: m1_def m2_def)
  have cell: "ints m2 c = (if c = w + n
      then \<lparr>ComplexInt.re = scast (ComplexShort.re (shorts m (a + n))),
            im = scast (ComplexShort.im (shorts m (a + n)))\<rparr>
      else ints m c)" for c
    by (simp add: m1_def m2_def ints_set_re ints_set_im)
  from Suc have "k = unat (ComplexIntArray.size' W) - Suc n" by simp
  from Suc.hyps(1) [OF this, of m2] obtain m' where
    run: "copyFrom_from m2 W A (Suc n) = Some m'"
    and sh: "shorts m' = shorts m2"
    and ld: "\<And>c. ints m' c =
           (if w + Suc n \<le> c \<and> c < w + unat (ComplexIntArray.size' W)
            then \<lparr>ComplexInt.re = scast (ComplexShort.re (shorts m2 (a + (c - w)))),
                  im = scast (ComplexShort.im (shorts m2 (a + (c - w))))\<rparr>
            else ints m2 c)"
    by blast
  have "ints m' c =
           (if w + n \<le> c \<and> c < w + unat (ComplexIntArray.size' W)
            then \<lparr>ComplexInt.re = scast (ComplexShort.re (shorts m (a + (c - w)))),
                  im = scast (ComplexShort.im (shorts m (a + (c - w))))\<rparr>
            else ints m c)" for c
    using inside by (cases "c = w + n") (auto simp add: ld cell sh2)
  with step run sh sh2 show ?case by auto
qed

lemma copyTo_from_is_copyFrom_from:
  "copyTo_from m W A n = copyFrom_from m W A n"
proof (induction "unat (ComplexIntArray.size' W) - n" arbitrary: n m)
  case 0
  then show ?case
    by (simp add: copyFrom_from.simps [of m W A n] copyTo_from.simps [of m W A n])
next
  case (Suc k)
  then have "k = unat (ComplexIntArray.size' W) - Suc n" by simp
  from Suc.hyps(1) [OF this] show ?case
    by (simp add: copyFrom_from.simps [of m W A n] copyTo_from.simps [of m W A n] Let_def
             split: option.splits)
qed

lemma copyFrom_PORTABLE_result:
  assumes W: "ComplexIntArray.data W = Ptr w" and A: "ComplexShortArray.data A = Ptr a"
  shows "\<exists>m'. copyFrom PORTABLE m W A = Some m' \<and> shorts m' = shorts m
     \<and> (\<forall>c. c < w \<or> w + unat (ComplexIntArray.size' W) \<le> c \<longrightarrow> ints m' c = ints m c)
     \<and> (\<forall>i < unat (ComplexIntArray.size' W).
           ComplexInt.re (ints m' (w + i)) = scast (ComplexShort.re (shorts m (a + i)))
         \<and> ComplexInt.im (ints m' (w + i)) = scast (ComplexShort.im (shorts m (a + i))))"
proof -
  from copyFrom_from_result [OF W A, of m 0] obtain m' where
    run: "copyFrom_from m W A 0 = Some m'"
    and sh: "shorts m' = shorts m"
    and ld: "\<And>c. ints m' c =
           (if w + 0 \<le> c \<and> c < w + unat (ComplexIntArray.size' W)
            then \<lparr>ComplexInt.re = scast (ComplexShort.re (shorts m (a + (c - w)))),
                  im = scast (ComplexShort.im (shorts m (a + (c - w))))\<rparr>
            else ints m c)"
    by blast
  have "copyFrom PORTABLE m W A = Some m'"
    using run by (simp add: copyFrom_def)
  moreover have "ints m' c = ints m c" if "c < w \<or> w + unat (ComplexIntArray.size' W) \<le> c" for c
    using that by (auto simp add: ld)
  moreover have "ComplexInt.re (ints m' (w + i)) = scast (ComplexShort.re (shorts m (a + i)))
         \<and> ComplexInt.im (ints m' (w + i)) = scast (ComplexShort.im (shorts m (a + i)))"
    if "i < unat (ComplexIntArray.size' W)" for i
    using that by (simp add: ld)
  ultimately show ?thesis using sh by blast
qed

lemma copyTo_PORTABLE_is_copyFrom: "copyTo PORTABLE m W A = copyFrom PORTABLE m W A"
  by (simp add: copyTo_def copyFrom_def copyTo_from_is_copyFrom_from)

text \<open>
  Claim C2. For a \<open>ComplexIntArray\<close> \<open>W\<close> and a \<open>ComplexShortArray\<close> \<open>A\<close> of the same
  size, \<open>W.copyFrom(A)\<close> widens: each \<open>re\<close> and \<open>im\<close> of \<open>W\<close> becomes the member of
  \<open>A\<close> at the same index times \<open>2^16\<close>. \<open>W.copyTo(A)\<close> narrows: each \<open>re\<close> and \<open>im\<close>
  of \<open>A\<close> becomes the member of \<open>W\<close> at the same index with its 16 low-order bits cut off
  (the number divided by \<open>2^16\<close>, rounded down). Each call returns, writes the elements
  below the size and nothing else. This is the header as it compiles, with
  \<open>ARM_CORTEX\<close>, for arrays that have storage and fewer than \<open>2^31\<close> elements.
\<close>

theorem copy_conversions:
  assumes "ComplexIntArray.data W = Ptr w" and "ComplexShortArray.data A = Ptr a"
    and "getSize A = ComplexIntArray.size' W"
    and "unat (ComplexIntArray.size' W) < 2 ^ 31"
  shows
   "(\<exists>m'. copyFrom ARM_CORTEX m W A = Some m' \<and> shorts m' = shorts m
       \<and> (\<forall>c. c < w \<or> w + unat (ComplexIntArray.size' W) \<le> c \<longrightarrow> ints m' c = ints m c)
       \<and> (\<forall>i < unat (ComplexIntArray.size' W).
             sint (ComplexInt.re (ints m' (w + i))) = 2 ^ 16 * sint (ComplexShort.re (shorts m (a + i)))
           \<and> sint (ComplexInt.im (ints m' (w + i))) = 2 ^ 16 * sint (ComplexShort.im (shorts m (a + i)))))
    \<and> (\<exists>m'. copyTo ARM_CORTEX m W A = Some m' \<and> ints m' = ints m
       \<and> (\<forall>c. c < a \<or> a + unat (ComplexIntArray.size' W) \<le> c \<longrightarrow> shorts m' c = shorts m c)
       \<and> (\<forall>i < unat (ComplexIntArray.size' W).
             sint (ComplexShort.re (shorts m' (a + i))) = sint (ComplexInt.re (ints m (w + i))) div 2 ^ 16
           \<and> sint (ComplexShort.im (shorts m' (a + i))) = sint (ComplexInt.im (ints m (w + i))) div 2 ^ 16))"
proof (intro conjI)
  from copyFrom_ARM_CORTEX_result [OF assms(1,2,4), of m]
  show "\<exists>m'. copyFrom ARM_CORTEX m W A = Some m' \<and> shorts m' = shorts m
       \<and> (\<forall>c. c < w \<or> w + unat (ComplexIntArray.size' W) \<le> c \<longrightarrow> ints m' c = ints m c)
       \<and> (\<forall>i < unat (ComplexIntArray.size' W).
             sint (ComplexInt.re (ints m' (w + i))) = 2 ^ 16 * sint (ComplexShort.re (shorts m (a + i)))
           \<and> sint (ComplexInt.im (ints m' (w + i))) = 2 ^ 16 * sint (ComplexShort.im (shorts m (a + i))))"
    by (auto simp add: sint_q15_to_q31)
next
  from copyTo_ARM_CORTEX_result [OF assms(1,2,4), of m]
  show "\<exists>m'. copyTo ARM_CORTEX m W A = Some m' \<and> ints m' = ints m
       \<and> (\<forall>c. c < a \<or> a + unat (ComplexIntArray.size' W) \<le> c \<longrightarrow> shorts m' c = shorts m c)
       \<and> (\<forall>i < unat (ComplexIntArray.size' W).
             sint (ComplexShort.re (shorts m' (a + i))) = sint (ComplexInt.re (ints m (w + i))) div 2 ^ 16
           \<and> sint (ComplexShort.im (shorts m' (a + i))) = sint (ComplexInt.im (ints m (w + i))) div 2 ^ 16)"
    by (auto simp add: sint_q31_to_q15)
qed

text \<open>
  The theorem at work on the one-element arrays \<open>W = [(196608, 262144)]\<close> and
  \<open>A = [(1, 2)]\<close>: \<open>copyFrom\<close> gives \<open>W = [(65536, 131072)]\<close>, \<open>copyTo\<close> gives
  \<open>A = [(3, 4)]\<close>.
\<close>

theorem copy_conversions_witness:
  "ComplexIntArray.data ex_V = Ptr 1 \<and> ComplexShortArray.data ex_A = Ptr 0
   \<and> getSize ex_A = ComplexIntArray.size' ex_V
   \<and> unat (ComplexIntArray.size' ex_V) < 2 ^ 31
   \<and> (\<exists>m'. copyFrom ARM_CORTEX ex_memory ex_V ex_A = Some m'
          \<and> sint (ComplexInt.re (ints m' 1)) = 65536 \<and> sint (ComplexInt.im (ints m' 1)) = 131072)
   \<and> (\<exists>m'. copyTo ARM_CORTEX ex_memory ex_V ex_A = Some m'
          \<and> sint (ComplexShort.re (shorts m' 0)) = 3 \<and> sint (ComplexShort.im (shorts m' 0)) = 4)"
proof -
  have h: "ComplexIntArray.data ex_V = Ptr 1" "ComplexShortArray.data ex_A = Ptr 0"
      "getSize ex_A = ComplexIntArray.size' ex_V" "unat (ComplexIntArray.size' ex_V) < 2 ^ 31"
    by (simp_all add: ex_V_def ex_A_def ComplexIntArray_of_def ComplexShortArray_of_def getSize_def)
  have one: "unat (ComplexIntArray.size' ex_V) = 1"
    by (simp add: ex_V_def ComplexIntArray_of_def)
  have cells: "shorts ex_memory 0 = \<lparr>ComplexShort.re = 1, im = 2\<rparr>"
      "ints ex_memory (Suc 0) = \<lparr>ComplexInt.re = 196608, im = 262144\<rparr>"
    by (simp_all add: ex_memory_def)
  from copy_conversions [OF h, of ex_memory] h show ?thesis
    by (auto simp add: one cells)
qed

section \<open>The round trip through a ComplexIntArray\<close>

text \<open>
  \<open>equals\<close> reads \<open>ComplexShort\<close> cells only. The loops of \<open>copyFrom\<close> and
  \<open>copyTo\<close> write \<open>ComplexInt\<close> cells only, so the text of the two loops, run one after
  the other, leaves \<open>A2.equals(A)\<close> what it was.
\<close>

lemma equals_from_shorts:
  "shorts m' = shorts m \<Longrightarrow> equals_from m' A B n = equals_from m A B n"
proof (induction "unat (ComplexShortArray.size' A) - n" arbitrary: n)
  case 0
  then have "\<not> n < unat (ComplexShortArray.size' A)" by simp
  then show ?case
    by (simp add: equals_from_done)
next
  case (Suc k)
  then have inside: "n < unat (ComplexShortArray.size' A)" by simp
  from Suc have "k = unat (ComplexShortArray.size' A) - Suc n" by simp
  from Suc.hyps(1) [OF this Suc.prems]
  have ih: "equals_from m' A B (Suc n) = equals_from m A B (Suc n)" .
  show ?case
    apply (subst equals_from.simps [of m' A B n])
    apply (subst equals_from.simps [of m A B n])
    apply (simp only: ih Suc.prems)
    done
qed

lemma equals_shorts: "shorts m' = shorts m \<Longrightarrow> equals m' A B = equals m A B"
  using equals_from_shorts [of m' m A B 0] by (simp add: equals_def)

lemma round_trip_PORTABLE:
  assumes W: "ComplexIntArray.data W = Ptr w" and A: "ComplexShortArray.data A = Ptr a"
    and A2: "ComplexShortArray.data A2 = Ptr a2"
  shows "\<exists>m1 m2. copyFrom PORTABLE m W A = Some m1 \<and> copyTo PORTABLE m1 W A2 = Some m2
           \<and> shorts m2 = shorts m \<and> equals m2 A2 A = equals m A2 A"
proof -
  from copyFrom_PORTABLE_result [OF W A, of m] obtain m1 where
    m1: "copyFrom PORTABLE m W A = Some m1" "shorts m1 = shorts m"
    by blast
  from copyFrom_PORTABLE_result [OF W A2, of m1] obtain m2 where
    m2: "copyTo PORTABLE m1 W A2 = Some m2" "shorts m2 = shorts m1"
    by (auto simp add: copyTo_PORTABLE_is_copyFrom)
  have sh: "shorts m2 = shorts m" using m1 m2 by simp
  have eq: "equals m2 A2 A = equals m A2 A"
    by (rule equals_shorts [OF sh])
  show ?thesis
    by (intro exI conjI) (rule m1(1), rule m2(1), rule sh, rule eq)
qed

text \<open>
  Claim C1. For a \<open>ComplexShortArray\<close> \<open>A\<close> (its members are 16-bit values), widening
  \<open>A\<close> into a \<open>ComplexIntArray\<close> \<open>W\<close> by \<open>W.copyFrom(A)\<close> and narrowing back into a
  \<open>ComplexShortArray\<close> \<open>A2\<close> of the same size by \<open>W.copyTo(A2)\<close> gives
  \<open>A2.equals(A) = true\<close>. This is the header as it compiles, with \<open>ARM_CORTEX\<close>, for
  arrays that have storage and fewer than \<open>2^31\<close> elements, and for \<open>A2\<close> the array
  \<open>A\<close> itself or an array that does not overlap it.
\<close>

theorem round_trip_ARM_CORTEX:
  assumes W: "ComplexIntArray.data W = Ptr w" and A: "ComplexShortArray.data A = Ptr a"
    and A2: "ComplexShortArray.data A2 = Ptr a2"
    and sizeA: "getSize A = ComplexIntArray.size' W" and sizeA2: "getSize A2 = ComplexIntArray.size' W"
    and small: "unat (ComplexIntArray.size' W) < 2 ^ 31"
    and apart: "a2 = a \<or> a2 + unat (ComplexIntArray.size' W) \<le> a
                \<or> a + unat (ComplexIntArray.size' W) \<le> a2"
  shows "\<exists>m1 m2. copyFrom ARM_CORTEX m W A = Some m1 \<and> copyTo ARM_CORTEX m1 W A2 = Some m2
           \<and> equals m2 A2 A = Some True"
proof -
  define N where "N = unat (ComplexIntArray.size' W)"
  from copyFrom_ARM_CORTEX_result [OF W A small, of m] obtain m1 where
    m1: "copyFrom ARM_CORTEX m W A = Some m1" and sh1: "shorts m1 = shorts m"
    and wide: "\<And>i. i < N \<Longrightarrow>
           ComplexInt.re (ints m1 (w + i)) = q15_to_q31 (ComplexShort.re (shorts m (a + i)))
         \<and> ComplexInt.im (ints m1 (w + i)) = q15_to_q31 (ComplexShort.im (shorts m (a + i)))"
    unfolding N_def by blast
  from copyTo_ARM_CORTEX_result [OF W A2 small, of m1] obtain m2 where
    m2: "copyTo ARM_CORTEX m1 W A2 = Some m2"
    and frame: "\<And>c. c < a2 \<or> a2 + N \<le> c \<Longrightarrow> shorts m2 c = shorts m1 c"
    and narrow: "\<And>i. i < N \<Longrightarrow>
           ComplexShort.re (shorts m2 (a2 + i)) = q31_to_q15 (ComplexInt.re (ints m1 (w + i)))
         \<and> ComplexShort.im (shorts m2 (a2 + i)) = q31_to_q15 (ComplexInt.im (ints m1 (w + i)))"
    unfolding N_def by blast
  have restored: "ComplexShort.re (shorts m2 (a2 + i)) = ComplexShort.re (shorts m (a + i))
            \<and> ComplexShort.im (shorts m2 (a2 + i)) = ComplexShort.im (shorts m (a + i))"
    if "i < N" for i
    using that narrow [of i] wide [of i] by (simp add: q31_to_q15_q15_to_q31)
  have same: "ComplexShort.re (shorts m2 (a2 + i)) = ComplexShort.re (shorts m2 (a + i))
            \<and> ComplexShort.im (shorts m2 (a2 + i)) = ComplexShort.im (shorts m2 (a + i))"
    if "i < N" for i
  proof (cases "a2 = a")
    case True
    then show ?thesis by simp
  next
    case False
    with apart that have "a + i < a2 \<or> a2 + N \<le> a + i"
      unfolding N_def by auto
    then have "shorts m2 (a + i) = shorts m (a + i)"
      using frame [of "a + i"] sh1 by simp
    with restored [OF that] show ?thesis by simp
  qed
  have "ComplexShortArray.size' A2 = ComplexShortArray.size' A"
    using sizeA sizeA2 by (simp add: getSize_def)
  then have "equals m2 A2 A = equals_from m2 A2 A 0"
    by (simp add: equals_def getSize_def)
  then have "equals m2 A2 A = Some (\<forall>i < unat (ComplexShortArray.size' A2).
                ComplexShort.re (shorts m2 (a2 + i)) = ComplexShort.re (shorts m2 (a + i))
              \<and> ComplexShort.im (shorts m2 (a2 + i)) = ComplexShort.im (shorts m2 (a + i)))"
    by (simp add: equals_from_cells [OF A2 A])
  moreover have "unat (ComplexShortArray.size' A2) = N"
    using sizeA2 by (simp add: getSize_def N_def)
  ultimately have "equals m2 A2 A = Some True"
    using same by simp
  then show ?thesis
    by (intro exI conjI) (rule m1, rule m2)
qed

text \<open>
  The theorem at work: \<open>A = [(1, 2)]\<close> at cell 0, \<open>A2 = [(0, 0)]\<close> at cell 1, and the
  three calls one after the other.
\<close>

theorem round_trip_ARM_CORTEX_witness:
  "ComplexIntArray.data ex_W = Ptr 0 \<and> ComplexShortArray.data ex_A = Ptr 0
   \<and> ComplexShortArray.data ex_A2 = Ptr 1
   \<and> getSize ex_A = ComplexIntArray.size' ex_W \<and> getSize ex_A2 = ComplexIntArray.size' ex_W
   \<and> unat (ComplexIntArray.size' ex_W) < 2 ^ 31
   \<and> 0 + unat (ComplexIntArray.size' ex_W) \<le> 1
   \<and> Option.bind (copyFrom ARM_CORTEX ex_memory ex_W ex_A)
        (\<lambda>m1. Option.bind (copyTo ARM_CORTEX m1 ex_W ex_A2)
        (\<lambda>m2. equals m2 ex_A2 ex_A)) = Some True"
proof -
  have W: "ComplexIntArray.data ex_W = Ptr 0" and A: "ComplexShortArray.data ex_A = Ptr 0"
    and A2: "ComplexShortArray.data ex_A2 = Ptr 1"
    and sizeA: "getSize ex_A = ComplexIntArray.size' ex_W"
    and sizeA2: "getSize ex_A2 = ComplexIntArray.size' ex_W"
    and one: "unat (ComplexIntArray.size' ex_W) = 1"
    by (simp_all add: ex_W_def ex_A_def ex_A2_def ComplexIntArray_of_def
          ComplexShortArray_of_def getSize_def)
  have small: "unat (ComplexIntArray.size' ex_W) < 2 ^ 31"
    by (simp add: one)
  have apart: "(1::nat) = 0 \<or> 1 + unat (ComplexIntArray.size' ex_W) \<le> 0
                \<or> 0 + unat (ComplexIntArray.size' ex_W) \<le> 1"
    by (simp add: one)
  from round_trip_ARM_CORTEX [OF W A A2 sizeA sizeA2 small apart, of ex_memory]
  have "Option.bind (copyFrom ARM_CORTEX ex_memory ex_W ex_A)
        (\<lambda>m1. Option.bind (copyTo ARM_CORTEX m1 ex_W ex_A2)
        (\<lambda>m2. equals m2 ex_A2 ex_A)) = Some True"
    by auto
  with W A A2 sizeA sizeA2 small show ?thesis
    by (simp add: one)
qed

section \<open>The two bodies of add and of the copies\<close>








section \<open>The loops of the copies at a concrete memory\<close>

text \<open>
  The text of the \<^verbatim>\<open>#else\<close> loops, run on the memory of the example next to the bodies with
  the primitives. After \<open>W.copyFrom(A)\<close> and \<open>W.copyTo(A2)\<close> with \<open>A = [(1, 2)]\<close> and
  \<open>A2 = [(0, 0)]\<close>, \<open>A2.equals(A)\<close> is false with the loops and true with the primitives.
\<close>

lemma round_trip_at_example:
  "Option.bind (copyFrom PORTABLE ex_memory ex_W ex_A)
     (\<lambda>m1. Option.bind (copyTo PORTABLE m1 ex_W ex_A2)
     (\<lambda>m2. equals m2 ex_A2 ex_A)) = Some False
   \<and> Option.bind (copyFrom ARM_CORTEX ex_memory ex_W ex_A)
     (\<lambda>m1. Option.bind (copyTo ARM_CORTEX m1 ex_W ex_A2)
     (\<lambda>m2. equals m2 ex_A2 ex_A)) = Some True"
  by code_simp

text \<open>
  The loop of \<open>copyFrom\<close> with \<open>A = [(1, 2)]\<close> leaves \<open>W = [(1, 2)]\<close>, where the primitive
  gives \<open>[(65536, 131072)]\<close>. The loop of \<open>copyTo\<close> with \<open>W = [(196608, 262144)]\<close> and
  \<open>A = [(1, 2)]\<close> leaves \<open>A\<close> as it was and overwrites \<open>W\<close> with \<open>[(1, 2)]\<close>, where the
  primitive leaves \<open>W\<close> and gives \<open>A = [(3, 4)]\<close>.
\<close>

lemma copies_at_example:
  "map_option (\<lambda>m'. (ints m' 0, shorts m' 0)) (copyFrom PORTABLE ex_memory ex_W ex_A)
     = Some (\<lparr>ComplexInt.re = 1, im = 2\<rparr>, \<lparr>ComplexShort.re = 1, im = 2\<rparr>)
   \<and> map_option (\<lambda>m'. (ints m' 0, shorts m' 0)) (copyFrom ARM_CORTEX ex_memory ex_W ex_A)
     = Some (\<lparr>ComplexInt.re = 65536, im = 131072\<rparr>, \<lparr>ComplexShort.re = 1, im = 2\<rparr>)
   \<and> map_option (\<lambda>m'. (ints m' 1, shorts m' 0)) (copyTo PORTABLE ex_memory ex_V ex_A)
     = Some (\<lparr>ComplexInt.re = 1, im = 2\<rparr>, \<lparr>ComplexShort.re = 1, im = 2\<rparr>)
   \<and> map_option (\<lambda>m'. (ints m' 1, shorts m' 0)) (copyTo ARM_CORTEX ex_memory ex_V ex_A)
     = Some (\<lparr>ComplexInt.re = 196608, im = 262144\<rparr>, \<lparr>ComplexShort.re = 3, im = 4\<rparr>)"
  by code_simp

section \<open>setPolar, setPhase and setMagnitude\<close>

text \<open>
  The value \<open>setPolar\<close> converts is within \<open>1/50\<close> of the exact \<open>y + 1/2\<close>, and the
  conversion of a number strictly between two neighbouring integers \<open>k\<close> and \<open>k + 1\<close> is
  \<open>k\<close> for \<open>k \<ge> 0\<close> and \<open>k + 1\<close> for \<open>k < 0\<close>.
\<close>

lemma polar_value_close:
  assumes "rounds_closely L" and "\<bar>y\<bar> \<le> 40000"
  shows "\<bar>to_double L (to_float L y + 1 / 2) - (y + 1 / 2)\<bar> \<le> 1 / 50"
proof -
  have f: "\<bar>to_float L y - y\<bar> \<le> 1 / 100"
    using assms by (simp add: rounds_closely_def)
  then have "\<bar>to_float L y + 1 / 2\<bar> \<le> 65536"
    using assms(2) by linarith
  then have d: "\<bar>to_double L (to_float L y + 1 / 2) - (to_float L y + 1 / 2)\<bar> \<le> 1 / 100"
    using assms(1) by (simp add: rounds_closely_def)
  from f d show ?thesis by linarith
qed

lemma to_int16_between:
  assumes "of_int k < x" and "x < of_int k + 1" and "- 32768 \<le> k" and "k \<le> 32767"
  shows "to_int16 x = Some (word_of_int (if 0 \<le> k then k else k + 1))"
proof (cases "0 \<le> k")
  case True
  then have "0 \<le> x" using assms(1) by linarith
  moreover have "\<lfloor>x\<rfloor> = k" using assms(1,2) by linarith
  moreover have "- 32769 < x \<and> x < 32768" using assms by linarith
  ultimately show ?thesis using True by (simp add: to_int16_def)
next
  case False
  then have "k + 1 \<le> 0" by simp
  then have "x < 0" using assms(2) by linarith
  moreover have "\<lceil>x\<rceil> = k + 1" using assms(1,2) by linarith
  moreover have "- 32769 < x \<and> x < 32768" using assms by linarith
  ultimately show ?thesis using False by (simp add: to_int16_def)
qed






text \<open>The exact platform meets what the theorems assume.\<close>

lemma exact_rounds: "rounds_closely exact_platform"
  by (simp add: rounds_closely_def exact_platform_def)






lemma exact_phase_1_1: "getPhase exact_platform v_1_1 = pi / 4"
  by (simp add: getPhase_def exact_platform_def exact_atan2_def v_1_1_def arctan_one)

lemma sqrt2_bounds: "7 / 5 \<le> sqrt 2" "sqrt 2 \<le> 36 / 25"
proof -
  show "7 / 5 \<le> sqrt 2" by (rule real_le_rsqrt) (simp add: power2_eq_square)
  show "sqrt 2 \<le> 36 / 25" by (rule real_le_lsqrt) (simp_all add: power2_eq_square)
qed

lemma exact_cos_sin_1_1:
  "\<bar>cosf exact_platform (getPhase exact_platform v_1_1) - 71 / 100\<bar> \<le> 1 / 100"
  "\<bar>sinf exact_platform (getPhase exact_platform v_1_1) - 71 / 100\<bar> \<le> 1 / 100"
proof -
  have c: "cosf exact_platform (getPhase exact_platform v_1_1) = sqrt 2 / 2"
    by (simp add: exact_phase_1_1) (simp add: exact_platform_def cos_45)
  have s: "sinf exact_platform (getPhase exact_platform v_1_1) = sqrt 2 / 2"
    by (simp add: exact_phase_1_1) (simp add: exact_platform_def sin_45)
  show "\<bar>cosf exact_platform (getPhase exact_platform v_1_1) - 71 / 100\<bar> \<le> 1 / 100"
    unfolding c using sqrt2_bounds by linarith
  show "\<bar>sinf exact_platform (getPhase exact_platform v_1_1) - 71 / 100\<bar> \<le> 1 / 100"
    unfolding s using sqrt2_bounds by linarith
qed

lemma exact_cos_sin_0:
  "\<bar>cosf exact_platform 0 - 1\<bar> \<le> 1 / 100" "\<bar>sinf exact_platform 0\<bar> \<le> 1 / 100"
  by (simp_all add: exact_platform_def)




lemma setPolar_between:
  assumes rounds: "rounds_closely L"
    and re_lo: "of_int a + 1 / 50 < of_int (sint M) * cosf L p + 1 / 2"
    and re_hi: "of_int (sint M) * cosf L p + 1 / 2 < of_int a + 49 / 50"
    and im_lo: "of_int b + 1 / 50 < of_int (sint M) * sinf L p + 1 / 2"
    and im_hi: "of_int (sint M) * sinf L p + 1 / 2 < of_int b + 49 / 50"
    and a: "0 \<le> a" "a \<le> 32767" and b: "0 \<le> b" "b \<le> 32767"
  shows "setPolar L M p = Some \<lparr>ComplexShort.re = word_of_int a, im = word_of_int b\<rparr>"
proof -
  have conv: "to_int16 (to_double L (to_float L y + 1 / 2)) = Some (word_of_int k)"
    if "of_int k + 1 / 50 < y + 1 / 2" "y + 1 / 2 < of_int k + 49 / 50" "0 \<le> k" "k \<le> 32767"
    for y k
  proof -
    have "\<bar>y\<bar> \<le> 40000" using that by linarith
    from polar_value_close [OF rounds this] that
    have "of_int k < to_double L (to_float L y + 1 / 2)"
      and "to_double L (to_float L y + 1 / 2) < of_int k + 1"
      by linarith+
    from to_int16_between [OF this] that show ?thesis by simp
  qed
  show ?thesis
    using conv [OF re_lo re_hi a] conv [OF im_lo im_hi b]
    by (simp add: setPolar_def)
qed

text \<open>
  Claim C6. There are a value \<open>v\<close>, a magnitude \<open>m\<close> and a phase \<open>p\<close> for which
  \<open>v.setPolar(m, p)\<close> gives a value \<open>q\<close> and \<open>v.setMagnitude(m)\<close> followed by
  \<open>v.setPhase(p)\<close> does not give \<open>q\<close>: the second call takes its magnitude from the value the first call
  has left. With \<open>v = (1, 1)\<close> and \<open>p = 0\<close>, \<open>setMagnitude(1)\<close> and \<open>setMagnitude(2)\<close>
  both leave \<open>(1, 1)\<close>, so the two calls end in the same value for \<open>m = 1\<close> and \<open>m = 2\<close>,
  while \<open>setPolar(1, 0)\<close> is \<open>(1, 0)\<close> and \<open>setPolar(2, 0)\<close> is \<open>(2, 0)\<close>. This is for
  either build, whatever \<open>getMagnitude()\<close> returns, on a platform whose roundings are close
  and whose \<open>cosf\<close> and \<open>sinf\<close> are within \<open>1/100\<close> of \<open>71/100\<close> at the phase of
  \<open>(1, 1)\<close> and within \<open>1/100\<close> of 1 and 0 at 0.
\<close>

theorem setMagnitude_setPhase_differs:
  assumes rounds: "rounds_closely L"
    and c1: "\<bar>cosf L (getPhase L v_1_1) - 71 / 100\<bar> \<le> 1 / 100"
    and s1: "\<bar>sinf L (getPhase L v_1_1) - 71 / 100\<bar> \<le> 1 / 100"
    and c0: "\<bar>cosf L 0 - 1\<bar> \<le> 1 / 100"
    and s0: "\<bar>sinf L 0\<bar> \<le> 1 / 100"
  shows "\<exists>v m p q. setPolar L m p = Some q
            \<and> Option.bind (setMagnitude L m v) (setPhase cfg L p) \<noteq> Some q"
proof -
  have first1: "setMagnitude L 1 v_1_1 = Some v_1_1"
  proof -
    have "setPolar L 1 (getPhase L v_1_1)
            = Some \<lparr>ComplexShort.re = word_of_int 1, im = word_of_int 1\<rparr>"
      using c1 s1 by (intro setPolar_between [OF rounds]; simp; linarith)
    then show ?thesis by (simp add: setMagnitude_def v_1_1_def)
  qed
  have first2: "setMagnitude L 2 v_1_1 = Some v_1_1"
  proof -
    have "setPolar L 2 (getPhase L v_1_1)
            = Some \<lparr>ComplexShort.re = word_of_int 1, im = word_of_int 1\<rparr>"
      using c1 s1 by (intro setPolar_between [OF rounds]; simp; linarith)
    then show ?thesis by (simp add: setMagnitude_def v_1_1_def)
  qed
  have once1: "setPolar L 1 0 = Some \<lparr>ComplexShort.re = 1, im = 0\<rparr>"
  proof -
    have "setPolar L 1 0 = Some \<lparr>ComplexShort.re = word_of_int 1, im = word_of_int 0\<rparr>"
      using c0 s0 by (intro setPolar_between [OF rounds]; simp; linarith)
    then show ?thesis by simp
  qed
  have once2: "setPolar L 2 0 = Some \<lparr>ComplexShort.re = 2, im = 0\<rparr>"
  proof -
    have "setPolar L 2 0 = Some \<lparr>ComplexShort.re = word_of_int 2, im = word_of_int 0\<rparr>"
      using c0 s0 by (intro setPolar_between [OF rounds]; simp; linarith)
    then show ?thesis by simp
  qed
  have twice1: "Option.bind (setMagnitude L 1 v_1_1) (setPhase cfg L 0) = setPhase cfg L 0 v_1_1"
    by (simp add: first1)
  have twice2: "Option.bind (setMagnitude L 2 v_1_1) (setPhase cfg L 0) = setPhase cfg L 0 v_1_1"
    by (simp add: first2)
  have "Option.bind (setMagnitude L 1 v_1_1) (setPhase cfg L 0)
            \<noteq> Some \<lparr>ComplexShort.re = 1, im = 0\<rparr>
        \<or> Option.bind (setMagnitude L 2 v_1_1) (setPhase cfg L 0)
            \<noteq> Some \<lparr>ComplexShort.re = 2, im = 0\<rparr>"
    unfolding twice1 twice2 by auto
  then show ?thesis
  proof
    assume "Option.bind (setMagnitude L 1 v_1_1) (setPhase cfg L 0)
            \<noteq> Some \<lparr>ComplexShort.re = 1, im = 0\<rparr>"
    with once1 show ?thesis by (intro exI conjI)
  next
    assume "Option.bind (setMagnitude L 2 v_1_1) (setPhase cfg L 0)
            \<noteq> Some \<lparr>ComplexShort.re = 2, im = 0\<rparr>"
    with once2 show ?thesis by (intro exI conjI)
  qed
qed

text \<open>
  On the exact platform, in the build with \<open>ARM_CORTEX\<close>: \<open>getMagnitude()\<close> of
  \<open>(1, 1)\<close> is 1, so \<open>setMagnitude(2)\<close> followed by \<open>setPhase(0)\<close> ends in \<open>(1, 0)\<close>,
  and \<open>setPolar(2, 0)\<close> is \<open>(2, 0)\<close>.
\<close>

lemma exact_magnitude_1_1:
  "getMagnitude ARM_CORTEX exact_platform v_1_1 = Some 1"
proof -
  have "\<lfloor>sqrt 2 + 1 / 2\<rfloor> = (1::int)"
    using sqrt2_bounds by (simp add: floor_eq_iff)
  then show ?thesis
    by (simp add: getMagnitude_def exact_platform_def v_1_1_def)
qed

lemma exact_two_calls:
  "Option.bind (setMagnitude exact_platform 2 v_1_1) (setPhase ARM_CORTEX exact_platform 0)
      = Some \<lparr>ComplexShort.re = 1, im = 0\<rparr>"
  "setPolar exact_platform 2 0 = Some \<lparr>ComplexShort.re = 2, im = 0\<rparr>"
proof -
  have first2: "setMagnitude exact_platform 2 v_1_1 = Some v_1_1"
  proof -
    have "setPolar exact_platform 2 (getPhase exact_platform v_1_1)
            = Some \<lparr>ComplexShort.re = word_of_int 1, im = word_of_int 1\<rparr>"
      using exact_cos_sin_1_1
      by (intro setPolar_between [OF exact_rounds]; simp; linarith)
    then show ?thesis by (simp add: setMagnitude_def v_1_1_def)
  qed
  have once: "setPolar exact_platform m 0 = Some \<lparr>ComplexShort.re = m, im = 0\<rparr>"
    if "m = 1 \<or> m = 2" for m
  proof -
    have "setPolar exact_platform m 0
           = Some \<lparr>ComplexShort.re = word_of_int (sint m), im = word_of_int 0\<rparr>"
      using exact_cos_sin_0 that
      by (intro setPolar_between [OF exact_rounds]; auto; linarith)
    then show ?thesis by simp
  qed
  show "setPolar exact_platform 2 0 = Some \<lparr>ComplexShort.re = 2, im = 0\<rparr>"
    using once [of 2] by simp
  show "Option.bind (setMagnitude exact_platform 2 v_1_1) (setPhase ARM_CORTEX exact_platform 0)
      = Some \<lparr>ComplexShort.re = 1, im = 0\<rparr>"
    using once [of 1] by (simp add: first2 setPhase_def exact_magnitude_1_1)
qed

text \<open>The theorem at work on the exact platform, with the values of the two sides.\<close>

theorem setMagnitude_setPhase_differs_witness:
  "rounds_closely exact_platform
   \<and> \<bar>cosf exact_platform (getPhase exact_platform v_1_1) - 71 / 100\<bar> \<le> 1 / 100
   \<and> \<bar>sinf exact_platform (getPhase exact_platform v_1_1) - 71 / 100\<bar> \<le> 1 / 100
   \<and> \<bar>cosf exact_platform 0 - 1\<bar> \<le> 1 / 100
   \<and> \<bar>sinf exact_platform 0\<bar> \<le> 1 / 100
   \<and> (\<exists>v m p q. setPolar exact_platform m p = Some q
          \<and> Option.bind (setMagnitude exact_platform m v) (setPhase ARM_CORTEX exact_platform p)
                  \<noteq> Some q)
   \<and> Option.bind (setMagnitude exact_platform 2 v_1_1) (setPhase ARM_CORTEX exact_platform 0)
        = Some \<lparr>ComplexShort.re = 1, im = 0\<rparr>
   \<and> setPolar exact_platform 2 0 = Some \<lparr>ComplexShort.re = 2, im = 0\<rparr>"
  using setMagnitude_setPhase_differs [OF exact_rounds exact_cos_sin_1_1 exact_cos_sin_0, of ARM_CORTEX]
        exact_rounds exact_cos_sin_1_1 exact_cos_sin_0 exact_two_calls
  by simp

end
